theory Spec2Isabelle
  imports Main "HOL-Library.Word"
begin

section \<open>The process runner (package process)\<close>

text \<open>
  A shallow embedding of the process supervisor of package \<open>process\<close>: the constructor
  \<open>New\<close>, the operations \<open>Start\<close>, \<open>startCommand\<close>, \<open>Wait\<close>, \<open>cmdWait\<close>, \<open>Stop\<close>,
  \<open>PID\<close> and the two reader accessors. Everything the Go code obtains from the operating
  system (the executable search path, the temporary file, the outcome of a spawn, the
  termination error of a process, which case of a \<open>select\<close> fires) is an explicit
  observation passed to the model, so that each function is a total, executable function
  of the handle and of what the environment answered.
\<close>

subsection \<open>Errors\<close>

text \<open>
  The errors a call can return, one constructor per \<open>errors.New\<close>/\<open>fmt.Errorf\<close> site of
  the source, and \<open>Panic\<close> for a Go run-time panic (index out of range, nil dereference,
  call of a nil function).
\<close>

datatype ctx_error = Canceled | DeadlineExceeded

datatype error =
    OptionError
  | NoCommands
  | InvalidBatch
  | CommandNotFound string
  | TempFileError
  | AlreadyStarted
  | NotStarted
  | StdoutPipeError
  | StderrPipeError
  | StartError
  | ContextError ctx_error
  | RemoveError
  | Panic

text \<open>
  What \<open>cmd.Wait()\<close> returns for a process that did not exit cleanly: an
  \<open>*exec.ExitError\<close> with its exit code (\<open>-1\<close> when the process was killed by a
  signal), or another error of the wait itself. A clean exit is the nil error, \<open>None\<close>.
\<close>

datatype wait_error = ExitError int | WaitFailure

type_synonym exit_report = "wait_error option"

subsection \<open>Data\<close>

record RestartConfig =
  OnError :: bool
  Limit :: int
  Interval :: int

type_synonym os_file = string

type_synonym pipe = nat

text \<open>
  Modelled from the spec: the option set \<open>Op\<close> that \<open>New\<close> reads after \<open>applyOpts\<close>. Its
  declaration is not part of the listed sources; the fields are the ones \<open>New\<close> uses and
  the configuration the specification lists (output sink, environment, script-wrap
  toggle, optional restart policy).
\<close>

record Op =
  op_outputFile :: "os_file option"
  op_envs :: "string list"
  op_runAsBashScript :: bool
  op_restartConfig :: "RestartConfig option"

text \<open>The temporary script: its name, what has been written, and whether it was closed
  and removed.\<close>

record bash_file =
  f_name :: string
  f_content :: string
  f_closed :: bool
  f_removed :: bool

text \<open>An \<open>*exec.Cmd\<close>: the argument vector, the environment, the shared sink when both
  output streams go to one file, and the \<open>Process\<close> field, nil until the operating system
  has accepted the spawn (then it holds the process id).\<close>

record exec_cmd =
  cmd_args :: "string list"
  cmd_env :: "string list"
  cmd_sink :: "os_file option"
  cmd_process :: "int option"

text \<open>A Go channel of errors: its capacity, the buffered values (oldest first) and
  whether it has been closed.\<close>

record chan =
  ch_cap :: int
  ch_buf :: "exit_report list"
  ch_closed :: bool

text \<open>
  The struct \<open>process\<close>. \<open>ctx\<close> is nil (\<open>None\<close>) until \<open>Start\<close> derives the cancellable
  lifecycle; \<open>Some b\<close> is a derived lifecycle, \<open>b\<close> telling whether it has been cancelled
  (the field \<open>cancel\<close> of the source is the function that sets it). \<open>pid\<close> is the
  \<open>int32\<close> slot read and written atomically. \<open>wg\<close> counts the watcher tasks added to the
  wait group.
\<close>

record process =
  ctx :: "bool option"
  cmd :: "exec_cmd option"
  errc :: chan
  pid :: "32 word"
  commandArgs :: "string list"
  envs :: "string list"
  runBashFile :: "bash_file option"
  outputFile :: "os_file option"
  stdoutReader :: "pipe option"
  stderrReader :: "pipe option"
  wg :: nat
  restartConfig :: "RestartConfig option"

subsection \<open>Construction: \<open>New\<close>\<close>

text \<open>What the operating system answers during construction: \<open>lookPath name\<close> tells
  whether \<open>exec.LookPath\<close> resolves \<open>name\<close> to a non-empty path (the function
  \<open>commandExists\<close>), \<open>createTemp\<close> is the name of the temporary file \<open>os.CreateTemp\<close>
  made, or \<open>None\<close> when it failed, and \<open>writeFails k\<close> tells whether the \<open>k\<close>-th \<open>Write\<close> on
  that file (counted from 0) returns an error.\<close>

record new_env =
  lookPath :: "string \<Rightarrow> bool"
  createTemp :: "string option"
  writeFails :: "nat \<Rightarrow> bool"

definition commandExists :: "new_env \<Rightarrow> string \<Rightarrow> bool" where
  "commandExists env name = lookPath env name"

text \<open>\<open>strings.Split(s, " ")[0]\<close>: the part of \<open>s\<close> before its first space, all of \<open>s\<close>
  when it has none.\<close>

definition leading_token :: "string \<Rightarrow> string" where
  "leading_token s = takeWhile (\<lambda>c. c \<noteq> CHR '' '') s"

text \<open>\<open>strings.Join(args, " ")\<close>.\<close>

fun Join :: "string list \<Rightarrow> string" where
  "Join [] = []"
| "Join [a] = a"
| "Join (a # b # r) = a @ '' '' @ Join (b # r)"

definition newline :: string where
  "newline = [CHR 0x0A]"

definition bashScriptHeader :: string where
  "bashScriptHeader =
     ''#!/bin/bash'' @ newline @ newline @
     ''# do not mask errors in a pipeline'' @ newline @
     ''set -o pipefail'' @ newline @ newline @
     ''# treat unset variables as an error'' @ newline @
     ''set -o nounset'' @ newline @ newline @
     ''# exit script whenever it errs'' @ newline @
     ''set -o errexit'' @ newline @ newline"

text \<open>The first loop of \<open>New\<close>: for each command in order, take the leading token of its
  first argument and look it up. \<open>args[0]\<close> on a command with no argument is an index out
  of range, a panic.\<close>

fun check_commands :: "new_env \<Rightarrow> string list list \<Rightarrow> error option" where
  "check_commands env [] = None"
| "check_commands env ([] # rest) = Some Panic"
| "check_commands env ((a # as) # rest) =
     (if commandExists env (leading_token a) then check_commands env rest
      else Some (CommandNotFound (leading_token a)))"

text \<open>The second loop of \<open>New\<close> in script mode: each command is written as one line, the
  joined arguments and then a newline, two \<open>Write\<close> calls per command. \<open>k\<close> is the number
  of writes made so far; \<open>None\<close> is a failed write.\<close>

fun write_commands :: "new_env \<Rightarrow> nat \<Rightarrow> string \<Rightarrow> string list list \<Rightarrow> string option" where
  "write_commands env k content [] = Some content"
| "write_commands env k content (args # rest) =
     (if writeFails env k then None
      else if writeFails env (k + 1) then None
      else write_commands env (k + 2) (content @ Join args @ newline) rest)"

text \<open>The second loop of \<open>New\<close> without a script file: \<open>cmdArgs = args\<close> for each command,
  so the last command is the one that stays.\<close>

definition plain_args :: "string list list \<Rightarrow> string list" where
  "plain_args commands = foldl (\<lambda>cmdArgs args. args) [] commands"

text \<open>The argument vector and the script file: \<open>bash <file>\<close> and the written file in
  script mode, the command itself and no file otherwise.\<close>

definition build_args ::
  "Op \<Rightarrow> new_env \<Rightarrow> string list list \<Rightarrow> error + (string list \<times> bash_file option)" where
  "build_args op env commands =
     (if op_runAsBashScript op then
        (case createTemp env of
           None \<Rightarrow> Inl TempFileError
         | Some name \<Rightarrow>
             if writeFails env 0 then Inl TempFileError
             else
               (case write_commands env 1 bashScriptHeader commands of
                  None \<Rightarrow> Inl TempFileError
                | Some content \<Rightarrow>
                    Inr ([''bash'', name],
                         Some \<lparr>f_name = name, f_content = content,
                               f_closed = False, f_removed = False\<rparr>)))
      else Inr (plain_args commands, None))"

definition errcBuffer :: "Op \<Rightarrow> int" where
  "errcBuffer op =
     (case op_restartConfig op of
        None \<Rightarrow> 1
      | Some rc \<Rightarrow> if OnError rc \<and> Limit rc > 0 then Limit rc else 1)"

text \<open>\<open>make(chan error, n)\<close>.\<close>

definition make_chan :: "int \<Rightarrow> chan" where
  "make_chan n = \<lparr>ch_cap = n, ch_buf = [], ch_closed = False\<rparr>"

text \<open>
  \<open>New(commands, opts...)\<close>. \<open>applied\<close> is what \<open>op.applyOpts(opts)\<close> produced: an error,
  returned as it is, or the option set. The result is the error or the new handle.
\<close>

definition New :: "string list list \<Rightarrow> error + Op \<Rightarrow> new_env \<Rightarrow> error + process" where
  "New commands applied env =
     (case applied of
        Inl e \<Rightarrow> Inl e
      | Inr op \<Rightarrow>
          if length commands = 0 then Inl NoCommands
          else if length commands > 1 \<and> \<not> op_runAsBashScript op then Inl InvalidBatch
          else
            (case check_commands env commands of
               Some e \<Rightarrow> Inl e
             | None \<Rightarrow>
                 (case build_args op env commands of
                    Inl e \<Rightarrow> Inl e
                  | Inr (cmdArgs, bashFile) \<Rightarrow>
                      Inr \<lparr>ctx = None,
                           cmd = None,
                           errc = make_chan (errcBuffer op),
                           pid = 0,
                           commandArgs = cmdArgs,
                           envs = op_envs op,
                           runBashFile = bashFile,
                           outputFile = op_outputFile op,
                           stdoutReader = None,
                           stderrReader = None,
                           wg = 0,
                           restartConfig = op_restartConfig op\<rparr>)))"

subsection \<open>The result queue\<close>

text \<open>
  A send on a closed channel panics; a send completes when the buffer has room and blocks
  otherwise (the capacity \<open>New\<close> gives is at least 1, so there is no rendezvous case). A
  receive takes the oldest buffered value; on an empty channel it yields the zero value
  (the nil error) when the channel is closed and blocks when it is open.
\<close>

datatype send_result = Sent chan | SendBlocks | SendPanics

definition chan_send :: "chan \<Rightarrow> exit_report \<Rightarrow> send_result" where
  "chan_send c v =
     (if ch_closed c then SendPanics
      else if int (length (ch_buf c)) < ch_cap c then Sent (c\<lparr>ch_buf := ch_buf c @ [v]\<rparr>)
      else SendBlocks)"

definition chan_recv :: "chan \<Rightarrow> (exit_report \<times> chan) option" where
  "chan_recv c =
     (case ch_buf c of
        v # rest \<Rightarrow> Some (v, c\<lparr>ch_buf := rest\<rparr>)
      | [] \<Rightarrow> if ch_closed c then Some (None, c) else None)"

text \<open>The caller of \<open>Wait()\<close> receiving up to \<open>n\<close> times, stopping at the first receive
  that blocks: the values it got and the channel it leaves.\<close>

fun drain :: "nat \<Rightarrow> chan \<Rightarrow> exit_report list \<times> chan" where
  "drain 0 c = ([], c)"
| "drain (Suc n) c =
     (case chan_recv c of
        None \<Rightarrow> ([], c)
      | Some (v, c') \<Rightarrow> (case drain n c' of (vs, c'') \<Rightarrow> (v # vs, c'')))"

subsection \<open>Observable events\<close>

text \<open>
  What an operation does beyond changing the handle is recorded as a trace of events, in
  the order the code performs them: the operating system accepting or refusing a spawn,
  \<open>cmd.Wait()\<close> returning, a report being sent on the result queue, the caller of
  \<open>Wait()\<close> receiving one, the signals \<open>Stop\<close> sends and the removal of the script.
\<close>

datatype event =
    EvSpawn int
  | EvSpawnFailed error
  | EvExit exit_report
  | EvPublish exit_report
  | EvRecv exit_report
  | EvSigterm
  | EvSigkill
  | EvRemoveScript

subsection \<open>\<open>Start\<close> and the spawn step\<close>

text \<open>What the operating system answers to one spawn: the two pipes (\<open>None\<close> when
  \<open>StdoutPipe\<close> or \<open>StderrPipe\<close> returned an error; not consulted in sink mode) and the
  process id \<open>cmd.Start()\<close> obtained (\<open>None\<close> when it returned an error).\<close>

record spawn_obs =
  stdout_pipe :: "pipe option"
  stderr_pipe :: "pipe option"
  started :: "int option"

text \<open>\<open>p.cmd.Start()\<close> and the atomic store of the process id, converted to \<open>int32\<close>.\<close>

definition cmd_Start :: "process \<Rightarrow> exec_cmd \<Rightarrow> spawn_obs \<Rightarrow> error option \<times> event list \<times> process" where
  "cmd_Start p c ob =
     (case started ob of
        None \<Rightarrow> (Some StartError, [EvSpawnFailed StartError], p\<lparr>cmd := Some c\<rparr>)
      | Some q \<Rightarrow>
          (None, [EvSpawn q],
           p\<lparr>cmd := Some (c\<lparr>cmd_process := Some q\<rparr>), pid := word_of_int q\<rparr>))"

text \<open>
  \<open>startCommand\<close>. \<open>p.commandArgs[0]\<close> on an empty argument vector and
  \<open>exec.CommandContext\<close> on a nil context panic before anything is assigned. The new
  \<open>Cmd\<close> is stored in \<open>p.cmd\<close> before the pipes are made and before the process is
  started, so it stays there when one of these fails.
\<close>

definition startCommand :: "process \<Rightarrow> spawn_obs \<Rightarrow> error option \<times> event list \<times> process" where
  "startCommand p ob =
     (case commandArgs p of
        [] \<Rightarrow> (Some Panic, [], p)
      | name # args \<Rightarrow>
          (case ctx p of
             None \<Rightarrow> (Some Panic, [], p)
           | Some done \<Rightarrow>
               (let c = \<lparr>cmd_args = name # args, cmd_env = envs p,
                         cmd_sink = None, cmd_process = None\<rparr>
                in case outputFile p of
                     Some f \<Rightarrow> cmd_Start p (c\<lparr>cmd_sink := Some f\<rparr>) ob
                   | None \<Rightarrow>
                       (case stdout_pipe ob of
                          None \<Rightarrow>
                            (Some StdoutPipeError, [EvSpawnFailed StdoutPipeError],
                             p\<lparr>cmd := Some c, stdoutReader := None\<rparr>)
                        | Some r1 \<Rightarrow>
                            (case stderr_pipe ob of
                               None \<Rightarrow>
                                 (Some StderrPipeError, [EvSpawnFailed StderrPipeError],
                                  p\<lparr>cmd := Some c, stdoutReader := Some r1,
                                    stderrReader := None\<rparr>)
                             | Some r2 \<Rightarrow>
                                 cmd_Start (p\<lparr>stdoutReader := Some r1, stderrReader := Some r2\<rparr>)
                                   c ob)))))"

text \<open>
  \<open>Start(ctx)\<close>. \<open>parent_done\<close> tells whether the caller's context is already done, which
  the derived lifecycle inherits. On success the wait group is incremented and the watcher
  task is launched; the watcher itself is \<open>cmdWait\<close> below.
\<close>

definition Start :: "process \<Rightarrow> bool \<Rightarrow> spawn_obs \<Rightarrow> error option \<times> event list \<times> process" where
  "Start p parent_done ob =
     (case cmd p of
        Some c \<Rightarrow> (Some AlreadyStarted, [], p)
      | None \<Rightarrow>
          (case startCommand (p\<lparr>ctx := Some parent_done\<rparr>) ob of
             (Some e, evs, p') \<Rightarrow> (Some e, evs, p')
           | (None, evs, p') \<Rightarrow> (None, evs, p'\<lparr>wg := wg p' + 1\<rparr>)))"

subsection \<open>Accessors\<close>

definition Wait :: "process \<Rightarrow> chan" where
  "Wait p = errc p"

definition PID :: "process \<Rightarrow> 32 word" where
  "PID p = pid p"

datatype reader = FileReader os_file | PipeReader pipe

definition StdoutReader :: "process \<Rightarrow> reader option" where
  "StdoutReader p =
     (case outputFile p of
        Some f \<Rightarrow> Some (FileReader f)
      | None \<Rightarrow> map_option PipeReader (stdoutReader p))"

definition StderrReader :: "process \<Rightarrow> reader option" where
  "StderrReader p =
     (case outputFile p of
        Some f \<Rightarrow> Some (FileReader f)
      | None \<Rightarrow> map_option PipeReader (stderrReader p))"

subsection \<open>The watcher: \<open>cmdWait\<close>\<close>

text \<open>
  What the watcher observes during one iteration of its loop, in the order it consults
  it: the error \<open>p.cmd.Wait()\<close> returns, which case of the first \<open>select\<close> fires (the
  lifecycle's \<open>Done\<close> or the exit), how many reports the caller of \<open>Wait()\<close> takes off the
  queue before this iteration's send, which case of the second \<open>select\<close> fires (the
  lifecycle's \<open>Done\<close> or the restart interval) and what the operating system answers to the
  re-spawn.
\<close>

datatype wait_select = CtxFirst | ExitFirst

datatype sleep_select = CtxDuringSleep | IntervalElapsed

record attempt =
  exit_err :: exit_report
  wait_case :: wait_select
  recvs :: nat
  sleep_case :: sleep_select
  respawn :: spawn_obs

text \<open>How a run of the watcher stands when its observations are used up: it has
  returned, it waits for the running process to exit, it is blocked in a send on the full
  result queue, or it panicked in a send on a closed queue.\<close>

datatype wstatus = Returned | AwaitingExit | BlockedOnSend | Panicked

datatype flow = Continue | Stops wstatus

text \<open>\<open>p.errc <- err\<close>, after the caller has taken \<open>n\<close> reports off the queue.\<close>

definition publish :: "process \<Rightarrow> nat \<Rightarrow> exit_report \<Rightarrow> send_result \<times> event list \<times> process" where
  "publish p n err =
     (case drain n (errc p) of
        (got, c) \<Rightarrow>
          (case chan_send c err of
             Sent c' \<Rightarrow> (Sent c', map EvRecv got @ [EvPublish err], p\<lparr>errc := c'\<rparr>)
           | SendBlocks \<Rightarrow> (SendBlocks, map EvRecv got, p\<lparr>errc := c\<rparr>)
           | SendPanics \<Rightarrow> (SendPanics, map EvRecv got, p\<lparr>errc := c\<rparr>)))"

text \<open>
  One iteration of the \<open>for\<close> loop of \<open>cmdWait\<close>, with the current \<open>restartCount\<close>: the
  flow (next iteration, or the loop is left), the events, the handle and the counter.
  Both cases of the first \<open>select\<close> send the termination error first. The log calls that
  classify the error change nothing and are left out. Observing the lifecycle's \<open>Done\<close>
  means it has been cancelled, which the model records in \<open>ctx\<close>.
\<close>

definition cmdWait_iter ::
  "process \<Rightarrow> nat \<Rightarrow> attempt \<Rightarrow> flow \<times> event list \<times> process \<times> nat" where
  "cmdWait_iter p restartCount a =
     (let err = exit_err a in
      case publish p (recvs a) err of
        (SendBlocks, evs, p1) \<Rightarrow> (Stops BlockedOnSend, EvExit err # evs, p1, restartCount)
      | (SendPanics, evs, p1) \<Rightarrow> (Stops Panicked, EvExit err # evs, p1, restartCount)
      | (Sent c, evs, p1) \<Rightarrow>
          (case wait_case a of
             CtxFirst \<Rightarrow> (Stops Returned, EvExit err # evs, p1\<lparr>ctx := Some True\<rparr>, restartCount)
           | ExitFirst \<Rightarrow>
               if err = None then (Stops Returned, EvExit err # evs, p1, restartCount)
               else
                 (case restartConfig p1 of
                    None \<Rightarrow> (Stops Returned, EvExit err # evs, p1, restartCount)
                  | Some rc \<Rightarrow>
                      if \<not> OnError rc then (Stops Returned, EvExit err # evs, p1, restartCount)
                      else if Limit rc > 0 \<and> int restartCount \<ge> Limit rc
                      then (Stops Returned, EvExit err # evs, p1, restartCount)
                      else
                        (case sleep_case a of
                           CtxDuringSleep \<Rightarrow>
                             (Stops Returned, EvExit err # evs, p1\<lparr>ctx := Some True\<rparr>,
                              restartCount)
                         | IntervalElapsed \<Rightarrow>
                             (case startCommand p1 (respawn a) of
                                (Some e, evs', p2) \<Rightarrow>
                                  (Stops Returned, EvExit err # evs @ evs', p2, restartCount)
                              | (None, evs', p2) \<Rightarrow>
                                  (Continue, EvExit err # evs @ evs', p2, restartCount + 1))))))"

text \<open>The loop: one observation per iteration. When the observations are used up the
  watcher is waiting for the running process to exit.\<close>

fun cmdWait_loop :: "process \<Rightarrow> nat \<Rightarrow> attempt list \<Rightarrow> wstatus \<times> event list \<times> process" where
  "cmdWait_loop p restartCount [] = (AwaitingExit, [], p)"
| "cmdWait_loop p restartCount (a # rest) =
     (case cmdWait_iter p restartCount a of
        (Stops st, evs, p', n) \<Rightarrow> (st, evs, p')
      | (Continue, evs, p', n) \<Rightarrow>
          (case cmdWait_loop p' n rest of (st, evs', p'') \<Rightarrow> (st, evs @ evs', p'')))"

definition cmdWait :: "process \<Rightarrow> attempt list \<Rightarrow> wstatus \<times> event list \<times> process" where
  "cmdWait p script = cmdWait_loop p 0 script"

subsection \<open>\<open>Stop\<close>\<close>

text \<open>
  What \<open>Stop\<close> observes: the outcome of sending SIGTERM (delivered, the error
  \<open>os: process already finished\<close>, or another error, which is only logged), which case
  of the \<open>select\<close> between the lifecycle's \<open>Done\<close> and the three seconds of grace fires, the
  error of the caller's own context, and whether \<open>os.RemoveAll\<close> fails.
\<close>

datatype signal_result = Delivered | AlreadyFinished | SignalFailed

datatype stop_select = LifecycleDone | GraceElapsed

record stop_obs =
  sigterm :: signal_result
  stop_case :: stop_select
  caller_err :: "ctx_error option"
  remove_fails :: bool

text \<open>
  \<open>Stop(ctx)\<close>. \<open>p.cancel()\<close> on a handle whose lifecycle was never derived calls a nil
  function, and \<open>p.cmd.Process.Signal\<close> on a \<open>Cmd\<close> that was never started dereferences
  nil: both panic. \<open>p.cancel()\<close> runs before the \<open>select\<close>, whose first case returns the
  error of the caller's context. The errors of \<open>Sync\<close> and \<open>Close\<close> are dropped; a failed
  \<open>Kill\<close> is only logged.
\<close>

definition Stop :: "process \<Rightarrow> stop_obs \<Rightarrow> error option \<times> event list \<times> process" where
  "Stop p ob =
     (case cmd p of
        None \<Rightarrow> (Some NotStarted, [], p)
      | Some c \<Rightarrow>
          (case ctx p of
             None \<Rightarrow> (Some Panic, [], p)
           | Some done \<Rightarrow>
               (case cmd_process c of
                  None \<Rightarrow> (Some Panic, [], p\<lparr>ctx := Some True\<rparr>)
                | Some q \<Rightarrow>
                    if sigterm ob \<noteq> AlreadyFinished \<and> stop_case ob = LifecycleDone
                    then (map_option ContextError (caller_err ob), [EvSigterm],
                          p\<lparr>ctx := Some True\<rparr>)
                    else
                      (case runBashFile p of
                         Some f \<Rightarrow>
                           (if remove_fails ob then Some RemoveError else None,
                            [EvSigterm] @
                              (if sigterm ob \<noteq> AlreadyFinished then [EvSigkill] else []) @
                              [EvRemoveScript],
                            p\<lparr>ctx := Some True,
                              runBashFile :=
                                Some (f\<lparr>f_closed := True,
                                        f_removed :=
                                          (if remove_fails ob then f_removed f else True)\<rparr>)\<rparr>)
                       | None \<Rightarrow>
                           (None,
                            [EvSigterm] @
                              (if sigterm ob \<noteq> AlreadyFinished then [EvSigkill] else []),
                            p\<lparr>ctx := Some True, cmd := None\<rparr>)))))"

subsection \<open>The supervisor in use\<close>

text \<open>
  The calls made on one handle, in the order they take effect: the caller's \<open>Start\<close>,
  \<open>Stop\<close> and receive on \<open>Wait()\<close>, and the run of a watcher task that a successful
  \<open>Start\<close> launched, with what it observes. \<open>launched\<close> counts the watcher tasks launched
  and not yet run; \<open>trace\<close> is everything that has happened so far.
\<close>

datatype call =
    CallStart bool spawn_obs
  | CallStop stop_obs
  | CallRecv
  | RunWatcher "attempt list"

record sys =
  handle :: process
  launched :: nat
  trace :: "event list"

definition init :: "process \<Rightarrow> sys" where
  "init p = \<lparr>handle = p, launched = 0, trace = []\<rparr>"

fun exec_call :: "sys \<Rightarrow> call \<Rightarrow> sys" where
  "exec_call s (CallStart parent_done ob) =
     (case Start (handle s) parent_done ob of
        (Some e, evs, p') \<Rightarrow> s\<lparr>handle := p', trace := trace s @ evs\<rparr>
      | (None, evs, p') \<Rightarrow>
          s\<lparr>handle := p', launched := launched s + 1, trace := trace s @ evs\<rparr>)"
| "exec_call s (CallStop ob) =
     (case Stop (handle s) ob of
        (r, evs, p') \<Rightarrow> s\<lparr>handle := p', trace := trace s @ evs\<rparr>)"
| "exec_call s CallRecv =
     (case chan_recv (Wait (handle s)) of
        None \<Rightarrow> s
      | Some (v, c') \<Rightarrow> s\<lparr>handle := (handle s)\<lparr>errc := c'\<rparr>, trace := trace s @ [EvRecv v]\<rparr>)"
| "exec_call s (RunWatcher script) =
     (if launched s = 0 then s
      else
        (case cmdWait (handle s) script of
           (st, evs, p') \<Rightarrow>
             s\<lparr>handle := (if st = Returned then p'\<lparr>wg := wg p' - 1\<rparr> else p'),
               launched := launched s - 1, trace := trace s @ evs\<rparr>))"

definition run :: "call list \<Rightarrow> sys \<Rightarrow> sys" where
  "run calls s = foldl exec_call s calls"

subsection \<open>Reading a trace\<close>

fun spawned :: "event list \<Rightarrow> int list" where
  "spawned [] = []"
| "spawned (EvSpawn q # es) = q # spawned es"
| "spawned (e # es) = spawned es"

fun respawns :: "event list \<Rightarrow> event list" where
  "respawns [] = []"
| "respawns (EvSpawn q # es) = EvSpawn q # respawns es"
| "respawns (EvSpawnFailed e # es) = EvSpawnFailed e # respawns es"
| "respawns (e # es) = respawns es"

fun exits :: "event list \<Rightarrow> exit_report list" where
  "exits [] = []"
| "exits (EvExit v # es) = v # exits es"
| "exits (e # es) = exits es"

fun published :: "event list \<Rightarrow> exit_report list" where
  "published [] = []"
| "published (EvPublish v # es) = v # published es"
| "published (e # es) = published es"

fun received :: "event list \<Rightarrow> exit_report list" where
  "received [] = []"
| "received (EvRecv v # es) = v # received es"
| "received (e # es) = received es"

text \<open>
  A monitor for the order of reports in a trace. \<open>pending\<close> is the termination error that
  \<open>cmd.Wait()\<close> has returned and that has not been sent yet. A new exit or a spawn step is
  in order only when nothing is pending, and a send only when it sends the pending error.
\<close>

fun report_order :: "exit_report option \<Rightarrow> event list \<Rightarrow> bool" where
  "report_order pending [] = True"
| "report_order pending (EvExit v # es) = (pending = None \<and> report_order (Some v) es)"
| "report_order pending (EvPublish v # es) = (pending = Some v \<and> report_order None es)"
| "report_order pending (EvSpawn q # es) = (pending = None \<and> report_order None es)"
| "report_order pending (EvSpawnFailed e # es) = (pending = None \<and> report_order None es)"
| "report_order pending (e # es) = report_order pending es"

text \<open>
  The decision function as the specification words it: true iff a policy is configured
  with \<open>onError\<close>, the attempt's error is not nil, and the limit is not positive or the
  restart counter is below it. The source has no function of this name; its two \<open>if\<close>
  statements in \<open>cmdWait\<close> are compared with this definition.
\<close>

definition shouldRestart :: "RestartConfig option \<Rightarrow> exit_report \<Rightarrow> nat \<Rightarrow> bool" where
  "shouldRestart policy attemptErr restartCount =
     (case policy of
        None \<Rightarrow> False
      | Some rc \<Rightarrow>
          OnError rc \<and> attemptErr \<noteq> None \<and> (Limit rc \<le> 0 \<or> int restartCount < Limit rc))"
subsection \<open>Scenarios\<close>

text \<open>Concrete environments, options and batches, taken from the tests of the package
  where they have one, on which the theorems below are run.\<close>

definition path_has :: "string \<Rightarrow> bool" where
  "path_has name = (name = ''echo'' \<or> name = ''sleep'' \<or> name = ''bash'')"

definition no_write_fails :: "nat \<Rightarrow> bool" where
  "no_write_fails k = False"

definition test_env :: new_env where
  "test_env = \<lparr>lookPath = path_has, createTemp = Some ''/tmp/tmpbash1.bash'', writeFails = no_write_fails\<rparr>"

definition restarts_op :: Op where
  "restarts_op = \<lparr>op_outputFile = Some ''/dev/stderr'', op_envs = [], op_runAsBashScript = True,
     op_restartConfig = Some \<lparr>OnError = True, Limit = 3, Interval = 100000000\<rparr>\<rparr>"

definition restarts_commands :: "string list list" where
  "restarts_commands = [[''echo hello''], [''echo 111 && exit 1'']]"

definition plain_op :: Op where
  "plain_op = \<lparr>op_outputFile = Some ''/dev/stderr'', op_envs = [], op_runAsBashScript = False,
     op_restartConfig = None\<rparr>"

definition script_op :: Op where
  "script_op = \<lparr>op_outputFile = None, op_envs = [], op_runAsBashScript = True,
     op_restartConfig = None\<rparr>"

definition restarts_proc :: process where
  "restarts_proc =
     \<lparr>ctx = None, cmd = None,
      errc = \<lparr>ch_cap = 3, ch_buf = [], ch_closed = False\<rparr>,
      pid = 0,
      commandArgs = [''bash'', ''/tmp/tmpbash1.bash''],
      envs = [],
      runBashFile = Some \<lparr>f_name = ''/tmp/tmpbash1.bash'',
        f_content = bashScriptHeader @ ''echo hello'' @ newline @ ''echo 111 && exit 1'' @ newline,
        f_closed = False, f_removed = False\<rparr>,
      outputFile = Some ''/dev/stderr'',
      stdoutReader = None, stderrReader = None, wg = 0,
      restartConfig = Some \<lparr>OnError = True, Limit = 3, Interval = 100000000\<rparr>\<rparr>"

definition spawn_4242 :: spawn_obs where
  "spawn_4242 = \<lparr>stdout_pipe = Some 3, stderr_pipe = Some 4, started = Some 4242\<rparr>"

definition stop_running :: stop_obs where
  "stop_running = \<lparr>sigterm = Delivered, stop_case = LifecycleDone, caller_err = None,
     remove_fails = False\<rparr>"

definition stop_finished :: stop_obs where
  "stop_finished = \<lparr>sigterm = AlreadyFinished, stop_case = LifecycleDone, caller_err = None,
     remove_fails = False\<rparr>"

definition sleep_proc :: process where
  "sleep_proc =
     \<lparr>ctx = None, cmd = None,
      errc = \<lparr>ch_cap = 1, ch_buf = [], ch_closed = False\<rparr>,
      pid = 0,
      commandArgs = [''sleep'', ''9999''],
      envs = [],
      runBashFile = None,
      outputFile = Some ''/dev/stderr'',
      stdoutReader = None, stderrReader = None, wg = 0,
      restartConfig = None\<rparr>"

definition sleep_started :: process where
  "sleep_started =
     \<lparr>ctx = Some False,
      cmd = Some \<lparr>cmd_args = [''sleep'', ''9999''], cmd_env = [],
                  cmd_sink = Some ''/dev/stderr'', cmd_process = Some 4242\<rparr>,
      errc = \<lparr>ch_cap = 1, ch_buf = [], ch_closed = False\<rparr>,
      pid = 4242,
      commandArgs = [''sleep'', ''9999''],
      envs = [],
      runBashFile = None,
      outputFile = Some ''/dev/stderr'',
      stdoutReader = None, stderrReader = None, wg = 1,
      restartConfig = None\<rparr>"

definition restarts_started :: process where
  "restarts_started =
     restarts_proc\<lparr>ctx := Some False,
       cmd := Some \<lparr>cmd_args = [''bash'', ''/tmp/tmpbash1.bash''], cmd_env = [],
                  cmd_sink = Some ''/dev/stderr'', cmd_process = Some 4242\<rparr>,
       pid := 4242, wg := 1\<rparr>"

definition stop_remove_fails :: stop_obs where
  "stop_remove_fails = \<lparr>sigterm = AlreadyFinished, stop_case = LifecycleDone, caller_err = None,
     remove_fails = True\<rparr>"

text \<open>Observations of the watcher: a failing attempt before which the caller has read one
  report, one before which it has read nothing, and two whose restart interval is cut short
  by the cancellation of the lifecycle. \<open>four_failures\<close> is what the watcher observes
  when the caller keeps reading and does not stop the handle; \<open>stopped_after_three\<close> is
  what it observes in \<open>TestProcessWithRestarts\<close>, where \<open>Stop\<close> follows the third read and
  cancels the lifecycle during the third restart interval.\<close>

definition fail_drained :: attempt where
  "fail_drained = \<lparr>exit_err = Some (ExitError 1), wait_case = ExitFirst, recvs = 1,
     sleep_case = IntervalElapsed, respawn = spawn_4242\<rparr>"

definition fail_unread :: attempt where
  "fail_unread = \<lparr>exit_err = Some (ExitError 1), wait_case = ExitFirst, recvs = 0,
     sleep_case = IntervalElapsed, respawn = spawn_4242\<rparr>"

definition four_failures :: "attempt list" where
  "four_failures = [fail_unread, fail_drained, fail_drained, fail_drained]"

definition fail_cancelled :: attempt where
  "fail_cancelled = \<lparr>exit_err = Some (ExitError 1), wait_case = ExitFirst, recvs = 0,
     sleep_case = CtxDuringSleep, respawn = spawn_4242\<rparr>"

definition fail_drained_cancelled :: attempt where
  "fail_drained_cancelled = \<lparr>exit_err = Some (ExitError 1), wait_case = ExitFirst, recvs = 1,
     sleep_case = CtxDuringSleep, respawn = spawn_4242\<rparr>"

definition stopped_after_three :: "attempt list" where
  "stopped_after_three = [fail_unread, fail_drained, fail_drained_cancelled, fail_drained]"

definition unlimited_started :: process where
  "unlimited_started =
     sleep_started\<lparr>restartConfig := Some \<lparr>OnError = True, Limit = 0, Interval = 100000000\<rparr>\<rparr>"

text \<open>A spawn the operating system accepts, and an attempt of a command that exits with
  an error and is started again: the exit is observed before any cancellation, the restart
  interval elapses, and the re-spawn is accepted.\<close>

definition spawn_ok :: "spawn_obs \<Rightarrow> bool" where
  "spawn_ok ob = (stdout_pipe ob \<noteq> None \<and> stderr_pipe ob \<noteq> None \<and> started ob \<noteq> None)"

definition keeps_failing :: "attempt \<Rightarrow> bool" where
  "keeps_failing a =
     (exit_err a \<noteq> None \<and> wait_case a = ExitFirst \<and> sleep_case a = IntervalElapsed \<and>
      spawn_ok (respawn a))"

text \<open>A command that exits cleanly, and a caller that starts the handle, reads the report
  of the clean exit, stops the handle and starts it again.\<close>

definition clean_exit :: attempt where
  "clean_exit = \<lparr>exit_err = None, wait_case = ExitFirst, recvs = 0,
     sleep_case = IntervalElapsed, respawn = spawn_4242\<rparr>"

definition spawn_4243 :: spawn_obs where
  "spawn_4243 = \<lparr>stdout_pipe = Some 5, stderr_pipe = Some 6, started = Some 4243\<rparr>"

definition start_wait_stop :: "call list" where
  "start_wait_stop =
     [CallStart False spawn_4242, RunWatcher [clean_exit], CallRecv, CallStop stop_finished]"

definition start_again :: "call list" where
  "start_again = start_wait_stop @ [CallStart False spawn_4243, RunWatcher [clean_exit]]"




subsection \<open>Invariants of a handle in use\<close>

text \<open>The process id slot holds the id of the last spawn the operating system accepted, 0 when
  there was none.\<close>

definition slot_follows_trace :: "sys \<Rightarrow> bool" where
  "slot_follows_trace s \<longleftrightarrow>
     pid (handle s) =
       (if spawned (trace s) = [] then 0 else word_of_int (last (spawned (trace s))))"

section \<open>Properties of the construction\<close>

subsection \<open>The validation loop\<close>

text \<open>The loop panics exactly when the first command that is empty or unresolved is an
  empty one, and reports a missing command exactly when it is an unresolved one.\<close>

lemma check_commands_Panic_iff:
  "check_commands env cs = Some Panic \<longleftrightarrow>
     (\<exists>pre rest. cs = pre @ [] # rest \<and>
        (\<forall>c\<in>set pre. c \<noteq> [] \<and> commandExists env (leading_token (hd c))))"
proof (induction env cs rule: check_commands.induct)
  case (1 env)
  then show ?case by simp
next
  case (2 env rest)
  show ?case by (auto intro: exI[of _ "[]"])
next
  case (3 env a as rest)
  show ?case
  proof (cases "commandExists env (leading_token a)")
    case True
    show ?thesis
    proof
      assume "check_commands env ((a # as) # rest) = Some Panic"
      with True 3 obtain pre r where "rest = pre @ [] # r"
        and "\<forall>c\<in>set pre. c \<noteq> [] \<and> commandExists env (leading_token (hd c))" by auto
      with True have "(a # as) # rest = ((a # as) # pre) @ [] # r \<and>
        (\<forall>c\<in>set ((a # as) # pre). c \<noteq> [] \<and> commandExists env (leading_token (hd c)))" by simp
      then show "\<exists>pre rest'. (a # as) # rest = pre @ [] # rest' \<and>
        (\<forall>c\<in>set pre. c \<noteq> [] \<and> commandExists env (leading_token (hd c)))" by blast
    next
      assume "\<exists>pre rest'. (a # as) # rest = pre @ [] # rest' \<and>
        (\<forall>c\<in>set pre. c \<noteq> [] \<and> commandExists env (leading_token (hd c)))"
      then obtain pre r where eq: "(a # as) # rest = pre @ [] # r"
        and ok: "\<forall>c\<in>set pre. c \<noteq> [] \<and> commandExists env (leading_token (hd c))" by blast
      from eq obtain pre' where "pre = (a # as) # pre'" and "rest = pre' @ [] # r"
        by (cases pre) auto
      with ok True 3 show "check_commands env ((a # as) # rest) = Some Panic" by auto
    qed
  next
    case False
    have "\<not> (\<exists>pre rest'. (a # as) # rest = pre @ [] # rest' \<and>
        (\<forall>c\<in>set pre. c \<noteq> [] \<and> commandExists env (leading_token (hd c))))"
    proof
      assume "\<exists>pre rest'. (a # as) # rest = pre @ [] # rest' \<and>
        (\<forall>c\<in>set pre. c \<noteq> [] \<and> commandExists env (leading_token (hd c)))"
      then obtain pre r where eq: "(a # as) # rest = pre @ [] # r"
        and ok: "\<forall>c\<in>set pre. c \<noteq> [] \<and> commandExists env (leading_token (hd c))" by blast
      from eq obtain pre' where "pre = (a # as) # pre'" by (cases pre) auto
      with ok False show False by simp
    qed
    with False show ?thesis by simp
  qed
qed

lemma check_commands_NotFound_iff:
  "check_commands env cs = Some (CommandNotFound n) \<longleftrightarrow>
     (\<exists>pre a as rest. cs = pre @ (a # as) # rest \<and>
        (\<forall>c\<in>set pre. c \<noteq> [] \<and> commandExists env (leading_token (hd c))) \<and>
        n = leading_token a \<and> \<not> commandExists env n)"
proof (induction env cs rule: check_commands.induct)
  case (1 env)
  then show ?case by simp
next
  case (2 env rest)
  have "\<And>pre a as r. [] # rest = pre @ (a # as) # r \<Longrightarrow>
     \<not> (\<forall>c\<in>set pre. c \<noteq> [] \<and> commandExists env (leading_token (hd c)))"
    subgoal for pre a as r by (cases pre) auto
    done
  then show ?case by auto
next
  case (3 env b bs rest)
  show ?case
  proof (cases "commandExists env (leading_token b)")
    case True
    show ?thesis
    proof
      assume "check_commands env ((b # bs) # rest) = Some (CommandNotFound n)"
      with True 3 obtain pre a as r where "rest = pre @ (a # as) # r"
        and "\<forall>c\<in>set pre. c \<noteq> [] \<and> commandExists env (leading_token (hd c))"
        and "n = leading_token a" and "\<not> commandExists env n" by auto
      with True have "(b # bs) # rest = ((b # bs) # pre) @ (a # as) # r \<and>
        (\<forall>c\<in>set ((b # bs) # pre). c \<noteq> [] \<and> commandExists env (leading_token (hd c))) \<and>
        n = leading_token a \<and> \<not> commandExists env n" by simp
      then show "\<exists>pre a as rest'. (b # bs) # rest = pre @ (a # as) # rest' \<and>
        (\<forall>c\<in>set pre. c \<noteq> [] \<and> commandExists env (leading_token (hd c))) \<and>
        n = leading_token a \<and> \<not> commandExists env n" by blast
    next
      assume "\<exists>pre a as rest'. (b # bs) # rest = pre @ (a # as) # rest' \<and>
        (\<forall>c\<in>set pre. c \<noteq> [] \<and> commandExists env (leading_token (hd c))) \<and>
        n = leading_token a \<and> \<not> commandExists env n"
      then obtain pre a as r where eq: "(b # bs) # rest = pre @ (a # as) # r"
        and ok: "\<forall>c\<in>set pre. c \<noteq> [] \<and> commandExists env (leading_token (hd c))"
        and n: "n = leading_token a" "\<not> commandExists env n" by blast
      from eq True n obtain pre' where "pre = (b # bs) # pre'" and "rest = pre' @ (a # as) # r"
        by (cases pre) auto
      with ok n True 3 show "check_commands env ((b # bs) # rest) = Some (CommandNotFound n)"
        by auto
    qed
  next
    case False
    show ?thesis
    proof
      assume "check_commands env ((b # bs) # rest) = Some (CommandNotFound n)"
      with False have "n = leading_token b" by simp
      with False have "(b # bs) # rest = [] @ (b # bs) # rest \<and>
        (\<forall>c\<in>set []. c \<noteq> [] \<and> commandExists env (leading_token (hd c))) \<and>
        n = leading_token b \<and> \<not> commandExists env n" by simp
      then show "\<exists>pre a as rest'. (b # bs) # rest = pre @ (a # as) # rest' \<and>
        (\<forall>c\<in>set pre. c \<noteq> [] \<and> commandExists env (leading_token (hd c))) \<and>
        n = leading_token a \<and> \<not> commandExists env n" by blast
    next
      assume "\<exists>pre a as rest'. (b # bs) # rest = pre @ (a # as) # rest' \<and>
        (\<forall>c\<in>set pre. c \<noteq> [] \<and> commandExists env (leading_token (hd c))) \<and>
        n = leading_token a \<and> \<not> commandExists env n"
      then obtain pre a as r where eq: "(b # bs) # rest = pre @ (a # as) # r"
        and ok: "\<forall>c\<in>set pre. c \<noteq> [] \<and> commandExists env (leading_token (hd c))"
        and n: "n = leading_token a" "\<not> commandExists env n" by blast
      have "pre = []"
      proof (cases pre)
        case Nil then show ?thesis .
      next
        case (Cons x xs)
        with eq ok False show ?thesis by auto
      qed
      with eq n False show "check_commands env ((b # bs) # rest) = Some (CommandNotFound n)"
        by simp
    qed
  qed
qed

subsection \<open>Which error \<open>New\<close> returns\<close>

lemma build_args_error: "build_args op env cs = Inl e \<Longrightarrow> e = TempFileError"
  by (auto simp: build_args_def split: if_splits option.splits)

lemma check_commands_error:
  "check_commands env cs = Some e \<Longrightarrow> e = Panic \<or> (\<exists>n. e = CommandNotFound n)"
  by (induction env cs rule: check_commands.induct) (auto split: if_splits)

lemma New_NoCommands_iff:
  "New commands (Inr op) env = Inl NoCommands \<longleftrightarrow> commands = []"
  by (auto simp: New_def split: option.splits sum.splits prod.splits
           dest: check_commands_error build_args_error)

lemma New_InvalidBatch_iff:
  "New commands (Inr op) env = Inl InvalidBatch \<longleftrightarrow>
     length commands > 1 \<and> \<not> op_runAsBashScript op"
  by (auto simp: New_def split: option.splits sum.splits prod.splits
           dest: check_commands_error build_args_error)

lemma New_checks:
  "commands \<noteq> [] \<Longrightarrow> \<not> (length commands > 1 \<and> \<not> op_runAsBashScript op) \<Longrightarrow>
   check_commands env commands = Some e \<Longrightarrow> New commands (Inr op) env = Inl e"
  by (auto simp: New_def)

lemma New_error_from_checks:
  "New commands (Inr op) env = Inl e \<Longrightarrow> e = Panic \<or> e = CommandNotFound n \<Longrightarrow>
   commands \<noteq> [] \<and> \<not> (length commands > 1 \<and> \<not> op_runAsBashScript op) \<and>
   check_commands env commands = Some e"
  by (auto simp: New_def split: option.splits sum.splits prod.splits if_splits
           dest: build_args_error)

text \<open>
  Claim C4, as the code has it. Once the options have been applied, \<open>New\<close> returns the
  no-commands error exactly for the empty batch, and the invalid-batch error exactly for a
  batch of more than one command without script mode. These two checks come first: the
  command-not-found error is returned exactly when the batch passes both and the first
  command that is empty or whose leading token does not resolve is a non-empty one, whose
  leading token the error names. A call that returns an error returns no handle.
\<close>

theorem New_construction_errors:
  "(New commands (Inr op) env = Inl NoCommands \<longleftrightarrow> commands = []) \<and>
   (New commands (Inr op) env = Inl InvalidBatch \<longleftrightarrow>
      length commands > 1 \<and> \<not> op_runAsBashScript op) \<and>
   (New commands (Inr op) env = Inl (CommandNotFound name) \<longleftrightarrow>
      commands \<noteq> [] \<and> \<not> (length commands > 1 \<and> \<not> op_runAsBashScript op) \<and>
      (\<exists>pre a as rest. commands = pre @ (a # as) # rest \<and>
         (\<forall>c\<in>set pre. c \<noteq> [] \<and> commandExists env (leading_token (hd c))) \<and>
         name = leading_token a \<and> \<not> commandExists env name)) \<and>
   (\<forall>e. New commands applied env = Inl e \<longrightarrow> (\<forall>p. New commands applied env \<noteq> Inr p))"
proof (intro conjI)
  show "New commands (Inr op) env = Inl NoCommands \<longleftrightarrow> commands = []"
    by (rule New_NoCommands_iff)
  show "New commands (Inr op) env = Inl InvalidBatch \<longleftrightarrow>
      length commands > 1 \<and> \<not> op_runAsBashScript op"
    by (rule New_InvalidBatch_iff)
  show "New commands (Inr op) env = Inl (CommandNotFound name) \<longleftrightarrow>
      commands \<noteq> [] \<and> \<not> (length commands > 1 \<and> \<not> op_runAsBashScript op) \<and>
      (\<exists>pre a as rest. commands = pre @ (a # as) # rest \<and>
         (\<forall>c\<in>set pre. c \<noteq> [] \<and> commandExists env (leading_token (hd c))) \<and>
         name = leading_token a \<and> \<not> commandExists env name)"
    (is "?L \<longleftrightarrow> ?N \<and> ?S \<and> ?D")
  proof
    assume ?L
    from New_error_from_checks[OF this]
    have "?N" and "?S" and "check_commands env commands = Some (CommandNotFound name)"
      by auto
    then show "?N \<and> ?S \<and> ?D" by (simp add: check_commands_NotFound_iff)
  next
    assume r: "?N \<and> ?S \<and> ?D"
    then have "?D" by blast
    then have "check_commands env commands = Some (CommandNotFound name)"
      by (simp only: check_commands_NotFound_iff)
    with r show ?L by (intro New_checks) blast+
  qed
  show "\<forall>e. New commands applied env = Inl e \<longrightarrow> (\<forall>p. New commands applied env \<noteq> Inr p)"
    by simp
qed

text \<open>The three errors on batches of the kind the package's tests use.\<close>

lemma test_env_simps:
  "commandExists test_env n = path_has n" "createTemp test_env = Some ''/tmp/tmpbash1.bash''"
  "writeFails test_env k = False"
  by (simp_all add: test_env_def commandExists_def no_write_fails_def)

theorem New_construction_errors_witness:
  "New [] (Inr plain_op) test_env = Inl NoCommands \<and>
   New [[''echo'', ''hello''], [''sleep'', ''1'']] (Inr plain_op) test_env = Inl InvalidBatch \<and>
   New [[''echo hello''], [''nonexistent --flag'']] (Inr script_op) test_env
     = Inl (CommandNotFound ''nonexistent'')"
proof -
  have split: "[[''echo hello''], [''nonexistent --flag'']]
      = [[''echo hello'']] @ (''nonexistent --flag'' # []) # []" by simp
  have pre: "\<forall>c\<in>set [[''echo hello'']]. c \<noteq> [] \<and> commandExists test_env (leading_token (hd c))"
    by (simp add: test_env_simps leading_token_def path_has_def)
  have nf: "''nonexistent'' = leading_token ''nonexistent --flag'' \<and>
            \<not> commandExists test_env ''nonexistent''"
    by (simp add: test_env_simps leading_token_def path_has_def)
  have s: "\<not> op_runAsBashScript plain_op" "op_runAsBashScript script_op"
    by (simp_all add: plain_op_def script_op_def)
  from New_construction_errors[of "[]" plain_op test_env _ "Inr plain_op"]
  have 1: "New [] (Inr plain_op) test_env = Inl NoCommands" by simp
  from New_construction_errors[of "[[''echo'', ''hello''], [''sleep'', ''1'']]" plain_op test_env _ "Inr plain_op"] s
  have 2: "New [[''echo'', ''hello''], [''sleep'', ''1'']] (Inr plain_op) test_env = Inl InvalidBatch"
    by simp
  from New_construction_errors[of "[[''echo hello''], [''nonexistent --flag'']]" script_op test_env
           "''nonexistent''" "Inr script_op"] s split pre nf
  have 3: "New [[''echo hello''], [''nonexistent --flag'']] (Inr script_op) test_env
     = Inl (CommandNotFound ''nonexistent'')" by blast
  from 1 2 3 show ?thesis by simp
qed

text \<open>
  An unresolved leading token does not always give the command-not-found error: a batch of
  two commands without script mode is refused as an invalid batch before any lookup.
\<close>

theorem New_unresolved_counterexample:
  "\<not> commandExists test_env (leading_token ''nonexistent'') \<and>
   New [[''echo'', ''hello''], [''nonexistent'']] (Inr plain_op) test_env = Inl InvalidBatch"
  by (simp add: New_def test_env_simps leading_token_def path_has_def plain_op_def)

subsection \<open>The capacity of the result queue\<close>

text \<open>
  Claim C5. For every successful construction the capacity of the result queue is
  \<open>max(1, limit)\<close>, which is the limit itself, when a restart policy is configured with
  \<open>OnError\<close> and a positive limit, and 1 in every other case: no policy, \<open>OnError\<close>
  false, or a limit that is not positive.
\<close>

theorem New_errc_capacity:
  assumes "New commands (Inr op) env = Inr p"
  shows "(\<forall>rc. op_restartConfig op = Some rc \<and> OnError rc \<and> 0 < Limit rc \<longrightarrow>
            ch_cap (errc p) = max 1 (Limit rc) \<and> ch_cap (errc p) = Limit rc) \<and>
         (op_restartConfig op = None \<or>
          (\<exists>rc. op_restartConfig op = Some rc \<and> (\<not> OnError rc \<or> Limit rc \<le> 0)) \<longrightarrow>
            ch_cap (errc p) = 1)"
proof -
  from assms have cap: "ch_cap (errc p) = errcBuffer op"
    by (auto simp: New_def make_chan_def split: option.splits sum.splits prod.splits if_splits)
  show ?thesis
    unfolding cap errcBuffer_def by (auto split: option.splits)
qed

text \<open>The construction of \<open>TestProcessWithRestarts\<close>: limit 3, capacity 3.\<close>

lemma New_restarts:
  "New restarts_commands (Inr restarts_op) test_env = Inr restarts_proc"
  by (simp add: New_def restarts_commands_def restarts_op_def restarts_proc_def
      test_env_simps leading_token_def path_has_def build_args_def errcBuffer_def make_chan_def)

theorem New_errc_capacity_witness:
  "New restarts_commands (Inr restarts_op) test_env = Inr restarts_proc \<and>
   op_restartConfig restarts_op = Some \<lparr>OnError = True, Limit = 3, Interval = 100000000\<rparr> \<and>
   ch_cap (errc restarts_proc) = max 1 3 \<and> ch_cap (errc restarts_proc) = 3"
  using New_errc_capacity[OF New_restarts] New_restarts
  by (simp add: restarts_op_def)

subsection \<open>The unguarded index\<close>

text \<open>
  Claim C9, as the code has it. For a non-empty batch in which every command has at least
  one token, \<open>args[0]\<close> is in bounds in every iteration and \<open>New\<close> does not panic. \<open>New\<close>
  panics, returning no error of its own, exactly when the batch passes the two size checks
  and an empty command is reached by the loop, that is, every command before it is
  non-empty and resolves.
\<close>

theorem New_index_out_of_range:
  "(commands \<noteq> [] \<and> (\<forall>args\<in>set commands. args \<noteq> []) \<longrightarrow>
      New commands (Inr op) env \<noteq> Inl Panic \<and> check_commands env commands \<noteq> Some Panic) \<and>
   (New commands (Inr op) env = Inl Panic \<longleftrightarrow>
      commands \<noteq> [] \<and> \<not> (length commands > 1 \<and> \<not> op_runAsBashScript op) \<and>
      (\<exists>pre rest. commands = pre @ [] # rest \<and>
         (\<forall>c\<in>set pre. c \<noteq> [] \<and> commandExists env (leading_token (hd c)))))"
proof -
  have iff: "New commands (Inr op) env = Inl Panic \<longleftrightarrow>
      commands \<noteq> [] \<and> \<not> (length commands > 1 \<and> \<not> op_runAsBashScript op) \<and>
      check_commands env commands = Some Panic"
    using New_error_from_checks[of commands op env Panic] New_checks[of commands op env Panic]
    by blast
  have inb: "(\<forall>args\<in>set commands. args \<noteq> []) \<Longrightarrow> check_commands env commands \<noteq> Some Panic"
    by (auto simp: check_commands_Panic_iff)
  from iff inb show ?thesis
    by (auto simp: check_commands_Panic_iff)
qed

theorem New_index_out_of_range_witness:
  "New [[''echo'', ''hello'']] (Inr plain_op) test_env \<noteq> Inl Panic \<and>
   New [[]] (Inr plain_op) test_env = Inl Panic"
proof -
  have a: "[[''echo'', ''hello'']] \<noteq> [] \<and> (\<forall>args\<in>set [[''echo'', ''hello'']]. args \<noteq> [])"
    by simp
  have b: "[[]] = [] @ [] # ([] :: string list list)" by simp
  from New_index_out_of_range[of "[[''echo'', ''hello'']]" plain_op test_env] a
  have 1: "New [[''echo'', ''hello'']] (Inr plain_op) test_env \<noteq> Inl Panic" by blast
  from New_index_out_of_range[of "[[]]" plain_op test_env] b
  have 2: "New [[]] (Inr plain_op) test_env = Inl Panic" by force
  from 1 2 show ?thesis by simp
qed

text \<open>
  A batch that contains an empty command does not always panic: when an earlier command
  does not resolve, the loop returns the command-not-found error before it reaches the
  empty one.
\<close>

theorem New_empty_command_counterexample:
  "[] \<in> set [[''nonexistent''], []] \<and>
   New [[''nonexistent''], []] (Inr script_op) test_env = Inl (CommandNotFound ''nonexistent'')"
  by (simp add: New_def test_env_simps leading_token_def path_has_def script_op_def)
section \<open>Properties of \<open>Start\<close> and \<open>Stop\<close>\<close>

subsection \<open>The construction of \<open>TestProcessSleep\<close>\<close>

lemma New_sleep:
  "New [[''sleep'', ''9999'']] (Inr plain_op) test_env = Inr sleep_proc"
  by (simp add: New_def plain_op_def sleep_proc_def
      test_env_simps leading_token_def path_has_def build_args_def errcBuffer_def make_chan_def
      plain_args_def)

subsection \<open>Which errors the spawn step returns, and what it leaves in the handle\<close>

lemma cmd_Start_error:
  "cmd_Start p c ob = (Some e, evs, p') \<Longrightarrow> e = StartError"
  by (auto simp: cmd_Start_def split: option.splits)

lemma startCommand_error:
  "startCommand p ob = (Some e, evs, p') \<Longrightarrow>
     e = Panic \<or> e = StdoutPipeError \<or> e = StderrPipeError \<or> e = StartError"
  by (auto simp: startCommand_def Let_def split: list.splits option.splits dest: cmd_Start_error)

lemma cmd_Start_cmd: "cmd_Start p c ob = (r, evs, p') \<Longrightarrow> cmd p' \<noteq> None"
  by (auto simp: cmd_Start_def split: option.splits)

lemma startCommand_cmd:
  "startCommand p ob = (r, evs, p') \<Longrightarrow> r \<noteq> Some Panic \<Longrightarrow> cmd p' \<noteq> None"
  by (auto simp: startCommand_def Let_def split: list.splits option.splits dest: cmd_Start_cmd)

lemma Start_AlreadyStarted_iff:
  "fst (Start p parent_done ob) = Some AlreadyStarted \<longleftrightarrow> cmd p \<noteq> None"
  by (auto simp: Start_def split: option.splits prod.splits dest: startCommand_error)

lemma Start_cmd:
  "Start p parent_done ob = (r, evs, p') \<Longrightarrow> r \<noteq> Some Panic \<Longrightarrow> cmd p' \<noteq> None"
  by (auto simp: Start_def split: option.splits prod.splits dest: startCommand_cmd)

lemma Stop_NotStarted_iff:
  "fst (Stop p ob) = Some NotStarted \<longleftrightarrow> cmd p = None"
  by (auto simp: Stop_def split: option.splits if_splits)

lemma New_cmd: "New commands applied env = Inr p \<Longrightarrow> cmd p = None"
  by (auto simp: New_def split: option.splits sum.splits prod.splits if_splits)

subsection \<open>The state errors\<close>

text \<open>
  Claim C6. \<open>Start\<close> returns the already-started error if and only if the handle holds a
  process reference, and then it returns at once with the handle unchanged and nothing
  done; so a second \<open>Start\<close> after a first one that did not panic fails with this error,
  whether the first succeeded or not. \<open>Stop\<close> returns the not-started error if and only
  if the handle holds no process reference, again with the handle unchanged; so \<open>Stop\<close>
  on a freshly constructed handle fails with it.
\<close>

theorem Start_Stop_state_errors:
  "(fst (Start p parent_done ob) = Some AlreadyStarted \<longleftrightarrow> cmd p \<noteq> None) \<and>
   (cmd p \<noteq> None \<longrightarrow> Start p parent_done ob = (Some AlreadyStarted, [], p)) \<and>
   (Start p parent_done ob = (r, evs, p') \<and> r \<noteq> Some Panic \<longrightarrow>
      Start p' parent_done' ob' = (Some AlreadyStarted, [], p')) \<and>
   (fst (Stop p sob) = Some NotStarted \<longleftrightarrow> cmd p = None) \<and>
   (cmd p = None \<longrightarrow> Stop p sob = (Some NotStarted, [], p)) \<and>
   (New commands applied env = Inr p \<longrightarrow> Stop p sob = (Some NotStarted, [], p))"
proof (intro conjI impI)
  show "fst (Start p parent_done ob) = Some AlreadyStarted \<longleftrightarrow> cmd p \<noteq> None"
    by (rule Start_AlreadyStarted_iff)
  show "Start p parent_done ob = (Some AlreadyStarted, [], p)" if "cmd p \<noteq> None"
    using that by (auto simp: Start_def)
  show "Start p' parent_done' ob' = (Some AlreadyStarted, [], p')"
    if "Start p parent_done ob = (r, evs, p') \<and> r \<noteq> Some Panic"
  proof -
    from that have "cmd p' \<noteq> None" by (blast dest: Start_cmd)
    then show ?thesis by (auto simp: Start_def)
  qed
  show "fst (Stop p sob) = Some NotStarted \<longleftrightarrow> cmd p = None"
    by (rule Stop_NotStarted_iff)
  show "Stop p sob = (Some NotStarted, [], p)" if "cmd p = None"
    using that by (simp add: Stop_def)
  show "Stop p sob = (Some NotStarted, [], p)" if "New commands applied env = Inr p"
    using New_cmd[OF that] by (simp add: Stop_def)
qed

text \<open>\<open>TestProcessSleep\<close> and \<open>TestProcessWithRestarts\<close> after their \<open>Start\<close>.\<close>

lemma Start_sleep:
  "Start sleep_proc False spawn_4242 = (None, [EvSpawn 4242], sleep_started)"
  by (simp add: Start_def startCommand_def cmd_Start_def sleep_proc_def sleep_started_def
      spawn_4242_def)

lemma Start_restarts:
  "Start restarts_proc False spawn_4242 = (None, [EvSpawn 4242], restarts_started)"
  by (simp add: Start_def startCommand_def cmd_Start_def restarts_proc_def restarts_started_def
      spawn_4242_def)

theorem Start_Stop_state_errors_witness:
  "Start sleep_proc False spawn_4242 = (None, [EvSpawn 4242], sleep_started) \<and>
   Start sleep_started False spawn_4242 = (Some AlreadyStarted, [], sleep_started) \<and>
   New [[''sleep'', ''9999'']] (Inr plain_op) test_env = Inr sleep_proc \<and>
   Stop sleep_proc stop_running = (Some NotStarted, [], sleep_proc)"
  using Start_Stop_state_errors[of sleep_proc False spawn_4242 None "[EvSpawn 4242]" sleep_started
          False spawn_4242 stop_running "[[''sleep'', ''9999'']]" "Inr plain_op" test_env]
        Start_sleep New_sleep
  by simp

subsection \<open>The last step of \<open>Stop\<close>\<close>

text \<open>
  Claim C8, as the code has it. A \<open>Stop\<close> that gets past the race between the lifecycle
  and the grace period (the process had already finished when it was signalled, or the
  grace period elapsed) ends in one of two ways. Without a script file it returns no error
  and resets the process reference to nil. With a script file it closes and removes the
  file, returns the error of the removal, and leaves the process reference as it was, so
  that a later \<open>Start\<close> fails with the already-started error. The process reference is
  reset exactly when there is no script file, and apart from the cancelled lifecycle no
  other field of the handle changes.
\<close>

theorem Stop_final_step:
  assumes "cmd p = Some c" and "ctx p = Some d" and "cmd_process c = Some q"
    and "sigterm ob = AlreadyFinished \<or> stop_case ob = GraceElapsed"
  shows "(runBashFile p = None \<longrightarrow>
            fst (Stop p ob) = None \<and>
            snd (snd (Stop p ob)) = p\<lparr>ctx := Some True, cmd := None\<rparr>) \<and>
         (\<forall>f. runBashFile p = Some f \<longrightarrow>
            fst (Stop p ob) = (if remove_fails ob then Some RemoveError else None) \<and>
            snd (snd (Stop p ob)) =
              p\<lparr>ctx := Some True,
                runBashFile := Some (f\<lparr>f_closed := True,
                  f_removed := (if remove_fails ob then f_removed f else True)\<rparr>)\<rparr> \<and>
            cmd (snd (snd (Stop p ob))) = Some c \<and>
            Start (snd (snd (Stop p ob))) parent_done sob
              = (Some AlreadyStarted, [], snd (snd (Stop p ob)))) \<and>
         (cmd (snd (snd (Stop p ob))) = None \<longleftrightarrow> runBashFile p = None)"
proof -
  from assms(4)
  have fin: "(sigterm ob \<noteq> AlreadyFinished \<and> stop_case ob = LifecycleDone) = False"
    by (cases "stop_case ob") auto
  show ?thesis
  proof (cases "runBashFile p")
    case None
    have "Stop p ob = (None,
        [EvSigterm] @ (if sigterm ob \<noteq> AlreadyFinished then [EvSigkill] else []),
        p\<lparr>ctx := Some True, cmd := None\<rparr>)"
      unfolding Stop_def by (simp only: assms(1-3) None fin option.case if_False)
    with None show ?thesis by simp
  next
    case (Some f)
    have "Stop p ob = (if remove_fails ob then Some RemoveError else None,
        [EvSigterm] @ (if sigterm ob \<noteq> AlreadyFinished then [EvSigkill] else []) @
          [EvRemoveScript],
        p\<lparr>ctx := Some True,
          runBashFile := Some (f\<lparr>f_closed := True,
            f_removed := (if remove_fails ob then f_removed f else True)\<rparr>)\<rparr>)"
      unfolding Stop_def by (simp only: assms(1-3) Some fin option.case if_False)
    with Some assms(1) show ?thesis by (simp add: Start_def)
  qed
qed

theorem Stop_final_step_witness:
  "fst (Stop sleep_started stop_finished) = None \<and>
   snd (snd (Stop sleep_started stop_finished)) = sleep_started\<lparr>ctx := Some True, cmd := None\<rparr> \<and>
   fst (Stop restarts_started stop_remove_fails) = Some RemoveError \<and>
   cmd (snd (snd (Stop restarts_started stop_remove_fails))) = cmd restarts_started \<and>
   cmd restarts_started \<noteq> None \<and>
   Start (snd (snd (Stop restarts_started stop_remove_fails))) False spawn_4242
     = (Some AlreadyStarted, [], snd (snd (Stop restarts_started stop_remove_fails)))"
proof -
  have a: "cmd sleep_started = Some \<lparr>cmd_args = [''sleep'', ''9999''], cmd_env = [],
                  cmd_sink = Some ''/dev/stderr'', cmd_process = Some 4242\<rparr>"
    "ctx sleep_started = Some False" "runBashFile sleep_started = None"
    by (simp_all add: sleep_started_def)
  have b: "cmd restarts_started = Some \<lparr>cmd_args = [''bash'', ''/tmp/tmpbash1.bash''], cmd_env = [],
                  cmd_sink = Some ''/dev/stderr'', cmd_process = Some 4242\<rparr>"
    "ctx restarts_started = Some False"
    "runBashFile restarts_started \<noteq> None"
    by (simp_all add: restarts_started_def restarts_proc_def)
  have o: "sigterm stop_finished = AlreadyFinished" "sigterm stop_remove_fails = AlreadyFinished"
    "remove_fails stop_remove_fails"
    by (simp_all add: stop_finished_def stop_remove_fails_def)
  from Stop_final_step[of sleep_started _ False 4242 stop_finished] a o
  have 1: "fst (Stop sleep_started stop_finished) = None \<and>
    snd (snd (Stop sleep_started stop_finished)) = sleep_started\<lparr>ctx := Some True, cmd := None\<rparr>"
    by simp
  from b obtain f where f: "runBashFile restarts_started = Some f" by auto
  have r: "(if remove_fails stop_remove_fails then Some RemoveError else None) = Some RemoveError"
    using o by simp
  from o have g: "sigterm stop_remove_fails = AlreadyFinished \<or>
      stop_case stop_remove_fails = GraceElapsed" by simp
  note th = Stop_final_step[OF b(1) b(2) _ g, of 4242 False spawn_4242, simplified r]
  from th f
  have 2: "fst (Stop restarts_started stop_remove_fails) = Some RemoveError \<and>
   cmd (snd (snd (Stop restarts_started stop_remove_fails))) = cmd restarts_started \<and>
   Start (snd (snd (Stop restarts_started stop_remove_fails))) False spawn_4242
     = (Some AlreadyStarted, [], snd (snd (Stop restarts_started stop_remove_fails)))"
    unfolding b(1) by fastforce
  from 1 2 b show ?thesis by simp
qed

text \<open>
  A \<open>Stop\<close> that returns no error does not always reset the process reference of a handle
  without a script file: on a process that is still running (\<open>TestProcessSleep\<close>) the
  signal is delivered, the lifecycle that \<open>Stop\<close> has just cancelled is done, and \<open>Stop\<close>
  returns the error of the caller's context, nil, before its last step.
\<close>

theorem Stop_early_return_counterexample:
  "runBashFile sleep_started = None \<and>
   fst (Stop sleep_started stop_running) = None \<and>
   cmd (snd (snd (Stop sleep_started stop_running))) \<noteq> None"
  by (simp add: Stop_def sleep_started_def stop_running_def)
section \<open>Properties of the watcher\<close>

subsection \<open>Reading traces\<close>

lemma spawned_append [simp]: "spawned (xs @ ys) = spawned xs @ spawned ys"
  by (induction xs rule: spawned.induct) simp_all

lemma respawns_append [simp]: "respawns (xs @ ys) = respawns xs @ respawns ys"
  by (induction xs rule: respawns.induct) simp_all

lemma exits_append [simp]: "exits (xs @ ys) = exits xs @ exits ys"
  by (induction xs rule: exits.induct) simp_all

lemma published_append [simp]: "published (xs @ ys) = published xs @ published ys"
  by (induction xs rule: published.induct) simp_all

lemma received_append [simp]: "received (xs @ ys) = received xs @ received ys"
  by (induction xs rule: received.induct) simp_all

lemma recv_events [simp]:
  "spawned (map EvRecv vs) = []" "respawns (map EvRecv vs) = []" "exits (map EvRecv vs) = []"
  "published (map EvRecv vs) = []" "received (map EvRecv vs) = vs"
  by (induction vs) simp_all

lemma report_order_recvs [simp]:
  "report_order pending (map EvRecv vs @ es) = report_order pending es"
  by (induction vs) simp_all

subsection \<open>The queue\<close>

lemma chan_recv_frame:
  "chan_recv c = Some (v, c') \<Longrightarrow> ch_closed c' = ch_closed c \<and> ch_cap c' = ch_cap c"
  by (auto simp: chan_recv_def split: list.splits if_splits)

lemma drain_frame:
  "drain n c = (vs, c') \<Longrightarrow> ch_closed c' = ch_closed c \<and> ch_cap c' = ch_cap c"
proof (induction n arbitrary: c vs c')
  case 0
  then show ?case by simp
next
  case (Suc n)
  then show ?case
    by (auto split: option.splits prod.splits dest!: chan_recv_frame)
qed

lemma chan_send_frame:
  "chan_send c v = Sent c' \<Longrightarrow> ch_closed c' = ch_closed c \<and> ch_cap c' = ch_cap c"
  by (auto simp: chan_send_def split: if_splits)

text \<open>What \<open>publish\<close> does: only the queue changes, and it is never closed.\<close>

lemma publish_cases:
  obtains (sent) got c c' where "drain n (errc p) = (got, c)" "chan_send c err = Sent c'"
      "publish p n err = (Sent c', map EvRecv got @ [EvPublish err], p\<lparr>errc := c'\<rparr>)"
  | (blocks) got c where "drain n (errc p) = (got, c)" "chan_send c err = SendBlocks"
      "publish p n err = (SendBlocks, map EvRecv got, p\<lparr>errc := c\<rparr>)"
  | (panics) got c where "drain n (errc p) = (got, c)" "chan_send c err = SendPanics"
      "publish p n err = (SendPanics, map EvRecv got, p\<lparr>errc := c\<rparr>)"
proof -
  obtain got c where d: "drain n (errc p) = (got, c)" by (cases "drain n (errc p)")
  show ?thesis
  proof (cases "chan_send c err")
    case (Sent c')
    with d show ?thesis by (intro sent[of got c c']) (simp_all add: publish_def)
  next
    case SendBlocks
    with d show ?thesis by (intro blocks[of got c]) (simp_all add: publish_def)
  next
    case SendPanics
    with d show ?thesis by (intro panics[of got c]) (simp_all add: publish_def)
  qed
qed

subsection \<open>The spawn step\<close>

lemma cmd_Start_frame:
  "cmd_Start p c ob = (r, evs, p') \<Longrightarrow>
     restartConfig p' = restartConfig p \<and> commandArgs p' = commandArgs p \<and> ctx p' = ctx p \<and>
     errc p' = errc p \<and> runBashFile p' = runBashFile p \<and> outputFile p' = outputFile p \<and>
     envs p' = envs p \<and> wg p' = wg p"
  by (auto simp: cmd_Start_def split: option.splits)

lemma startCommand_frame:
  "startCommand p ob = (r, evs, p') \<Longrightarrow>
     restartConfig p' = restartConfig p \<and> commandArgs p' = commandArgs p \<and> ctx p' = ctx p \<and>
     errc p' = errc p \<and> runBashFile p' = runBashFile p \<and> outputFile p' = outputFile p \<and>
     envs p' = envs p \<and> wg p' = wg p"
  by (auto simp: startCommand_def Let_def split: list.splits option.splits dest!: cmd_Start_frame)

text \<open>The events and the process id of a spawn step: at most one event; the slot is
  written exactly when the operating system accepted the spawn.\<close>

lemma cmd_Start_events:
  "cmd_Start p c ob = (r, evs, p') \<Longrightarrow>
     (r = None \<and> (\<exists>q. evs = [EvSpawn q] \<and> pid p' = word_of_int q)) \<or>
     (r = Some StartError \<and> evs = [EvSpawnFailed StartError] \<and> pid p' = pid p)"
  by (auto simp: cmd_Start_def split: option.splits)

lemma startCommand_events:
  "startCommand p ob = (r, evs, p') \<Longrightarrow>
     (r = None \<and> (\<exists>q. evs = [EvSpawn q] \<and> pid p' = word_of_int q)) \<or>
     (\<exists>e. r = Some e \<and> e \<noteq> Panic \<and> evs = [EvSpawnFailed e] \<and> pid p' = pid p) \<or>
     (r = Some Panic \<and> evs = [] \<and> p' = p)"
  by (auto simp: startCommand_def Let_def split: list.splits option.splits dest!: cmd_Start_events)

lemma startCommand_ok:
  "commandArgs p \<noteq> [] \<Longrightarrow> ctx p \<noteq> None \<Longrightarrow> spawn_ok ob \<Longrightarrow>
     fst (startCommand p ob) = None"
  by (auto simp: startCommand_def cmd_Start_def spawn_ok_def Let_def split: list.splits option.splits)

text \<open>The two \<open>if\<close> statements of the loop against the decision function.\<close>

lemma stop_checks_shouldRestart:
  "shouldRestart policy err n \<longleftrightarrow>
     err \<noteq> None \<and>
     (case policy of
        None \<Rightarrow> False
      | Some rc \<Rightarrow> \<not> (\<not> OnError rc) \<and> \<not> (Limit rc > 0 \<and> int n \<ge> Limit rc))"
  by (auto simp: shouldRestart_def split: option.splits)

lemma cmdWait_iter_eq:
  "cmdWait_iter p n a =
     (case publish p (recvs a) (exit_err a) of
        (SendBlocks, evs, p1) \<Rightarrow> (Stops BlockedOnSend, EvExit (exit_err a) # evs, p1, n)
      | (SendPanics, evs, p1) \<Rightarrow> (Stops Panicked, EvExit (exit_err a) # evs, p1, n)
      | (Sent c, evs, p1) \<Rightarrow>
          if wait_case a = ExitFirst \<and> shouldRestart (restartConfig p) (exit_err a) n then
            (case sleep_case a of
               CtxDuringSleep \<Rightarrow>
                 (Stops Returned, EvExit (exit_err a) # evs, p1\<lparr>ctx := Some True\<rparr>, n)
             | IntervalElapsed \<Rightarrow>
                 (case startCommand p1 (respawn a) of
                    (Some e, evs', p2) \<Rightarrow> (Stops Returned, EvExit (exit_err a) # evs @ evs', p2, n)
                  | (None, evs', p2) \<Rightarrow> (Continue, EvExit (exit_err a) # evs @ evs', p2, n + 1)))
          else
            (Stops Returned, EvExit (exit_err a) # evs,
             if wait_case a = CtxFirst then p1\<lparr>ctx := Some True\<rparr> else p1, n))"
proof (cases rule: publish_cases[of "recvs a" p "exit_err a"])
  case (sent got c c')
  show ?thesis
    unfolding cmdWait_iter_def Let_def sent(3)
    by (cases "wait_case a"; cases "restartConfig p")
       (auto simp: shouldRestart_def split: option.splits)
next
  case (blocks got c)
  show ?thesis unfolding cmdWait_iter_def Let_def blocks(3) by simp
next
  case (panics got c)
  show ?thesis unfolding cmdWait_iter_def Let_def panics(3) by simp
qed

subsection \<open>One iteration\<close>

lemma publish_frame:
  assumes "publish p k err = (r, evs, p1)"
  shows "\<exists>c. p1 = p\<lparr>errc := c\<rparr> \<and> ch_closed c = ch_closed (errc p) \<and>
           ch_cap c = ch_cap (errc p)"
proof (cases rule: publish_cases[of k p err])
  case (sent got c c')
  from drain_frame[OF sent(1)] chan_send_frame[OF sent(2)]
  have "ch_closed c' = ch_closed (errc p) \<and> ch_cap c' = ch_cap (errc p)" by simp
  with assms[unfolded sent(3)] show ?thesis by auto
next
  case (blocks got c)
  from drain_frame[OF blocks(1)] assms[unfolded blocks(3)] show ?thesis by auto
next
  case (panics got c)
  from drain_frame[OF panics(1)] assms[unfolded panics(3)] show ?thesis by auto
qed

lemma publish_events:
  assumes "publish p k err = (r, evs, p1)"
  shows "exits evs = [] \<and> respawns evs = [] \<and> spawned evs = [] \<and>
     published evs = (case r of Sent c \<Rightarrow> [err] | SendBlocks \<Rightarrow> [] | SendPanics \<Rightarrow> [])"
proof (cases rule: publish_cases[of k p err])
  case (sent got c c')
  from assms[unfolded sent(3)] show ?thesis by auto
next
  case (blocks got c)
  from assms[unfolded blocks(3)] show ?thesis by auto
next
  case (panics got c)
  from assms[unfolded panics(3)] show ?thesis by auto
qed

lemma publish_order:
  assumes "publish p k err = (r, evs, p1)"
  shows "report_order pending (evs @ rest) =
        (case r of Sent c \<Rightarrow> pending = Some err \<and> report_order None rest
         | SendBlocks \<Rightarrow> report_order pending rest | SendPanics \<Rightarrow> report_order pending rest)"
proof (cases rule: publish_cases[of k p err])
  case (sent got c c')
  from assms[unfolded sent(3)] show ?thesis by auto
next
  case (blocks got c)
  from assms[unfolded blocks(3)] show ?thesis by auto
next
  case (panics got c)
  from assms[unfolded panics(3)] show ?thesis by auto
qed

lemma publish_not_closed:
  "\<not> ch_closed (errc p) \<Longrightarrow> fst (publish p k err) \<noteq> SendPanics"
proof (cases rule: publish_cases[of k p err])
  case (panics got c)
  assume "\<not> ch_closed (errc p)"
  with panics(1) have "\<not> ch_closed c" by (auto dest: drain_frame)
  with panics(2) show ?thesis by (simp add: chan_send_def split: if_splits)
qed simp_all

lemma cmdWait_iter_cases:
  obtains
    (blocked) pevs p1 where
      "publish p (recvs a) (exit_err a) = (SendBlocks, pevs, p1)"
      "cmdWait_iter p n a = (Stops BlockedOnSend, EvExit (exit_err a) # pevs, p1, n)"
  | (panicked) pevs p1 where
      "publish p (recvs a) (exit_err a) = (SendPanics, pevs, p1)"
      "cmdWait_iter p n a = (Stops Panicked, EvExit (exit_err a) # pevs, p1, n)"
  | (stopped) c pevs p1 p1' where
      "publish p (recvs a) (exit_err a) = (Sent c, pevs, p1)"
      "\<not> (wait_case a = ExitFirst \<and> shouldRestart (restartConfig p) (exit_err a) n \<and>
          sleep_case a = IntervalElapsed)"
      "p1' = p1 \<or> p1' = p1\<lparr>ctx := Some True\<rparr>"
      "cmdWait_iter p n a = (Stops Returned, EvExit (exit_err a) # pevs, p1', n)"
  | (respawn_failed) c pevs p1 e sevs p2 where
      "publish p (recvs a) (exit_err a) = (Sent c, pevs, p1)"
      "wait_case a = ExitFirst" "shouldRestart (restartConfig p) (exit_err a) n"
      "sleep_case a = IntervalElapsed"
      "startCommand p1 (respawn a) = (Some e, sevs, p2)"
      "cmdWait_iter p n a = (Stops Returned, EvExit (exit_err a) # pevs @ sevs, p2, n)"
  | (respawned) c pevs p1 sevs p2 where
      "publish p (recvs a) (exit_err a) = (Sent c, pevs, p1)"
      "wait_case a = ExitFirst" "shouldRestart (restartConfig p) (exit_err a) n"
      "sleep_case a = IntervalElapsed"
      "startCommand p1 (respawn a) = (None, sevs, p2)"
      "cmdWait_iter p n a = (Continue, EvExit (exit_err a) # pevs @ sevs, p2, n + 1)"
proof -
  obtain r pevs p1 where pub: "publish p (recvs a) (exit_err a) = (r, pevs, p1)"
    by (cases "publish p (recvs a) (exit_err a)")
  obtain sr sevs p2 where sc: "startCommand p1 (respawn a) = (sr, sevs, p2)"
    by (cases "startCommand p1 (respawn a)")
  show ?thesis
  proof (cases r)
    case SendBlocks
    with pub show ?thesis by (intro blocked[of pevs p1]) (simp_all add: cmdWait_iter_eq)
  next
    case SendPanics
    with pub show ?thesis by (intro panicked[of pevs p1]) (simp_all add: cmdWait_iter_eq)
  next
    case (Sent c)
    note pub' = pub[unfolded Sent]
    show ?thesis
    proof (cases "wait_case a = ExitFirst \<and> shouldRestart (restartConfig p) (exit_err a) n")
      case False
      then have eq: "cmdWait_iter p n a = (Stops Returned, EvExit (exit_err a) # pevs,
             (if wait_case a = CtxFirst then p1\<lparr>ctx := Some True\<rparr> else p1), n)"
        by (auto simp: cmdWait_iter_eq pub')
      show ?thesis
        by (rule stopped[OF pub' _ _ eq]) (use False in auto)
    next
      case True
      show ?thesis
      proof (cases "sleep_case a")
        case CtxDuringSleep
        with True have eq: "cmdWait_iter p n a = (Stops Returned, EvExit (exit_err a) # pevs,
             p1\<lparr>ctx := Some True\<rparr>, n)"
          unfolding cmdWait_iter_eq pub' by simp
        show ?thesis
          by (rule stopped[OF pub' _ _ eq]) (use CtxDuringSleep in auto)
      next
        case IntervalElapsed
        show ?thesis
        proof (cases sr)
          case None
          with True IntervalElapsed sc
          have eq: "cmdWait_iter p n a = (Continue, EvExit (exit_err a) # pevs @ sevs, p2, n + 1)"
            unfolding cmdWait_iter_eq pub' by simp
          from True IntervalElapsed sc[unfolded None] eq show ?thesis
            by (intro respawned[OF pub']) simp_all
        next
          case (Some e)
          with True IntervalElapsed sc
          have eq: "cmdWait_iter p n a = (Stops Returned, EvExit (exit_err a) # pevs @ sevs, p2, n)"
            unfolding cmdWait_iter_eq pub' by simp
          from True IntervalElapsed sc[unfolded Some] eq show ?thesis
            by (intro respawn_failed[OF pub']) simp_all
        qed
      qed
    qed
  qed
qed

lemma cmdWait_iter_frame:
  assumes "cmdWait_iter p n a = (fl, evs, p', n')"
  shows "restartConfig p' = restartConfig p \<and> commandArgs p' = commandArgs p \<and>
         (ctx p \<noteq> None \<longrightarrow> ctx p' \<noteq> None) \<and>
         ch_closed (errc p') = ch_closed (errc p) \<and> ch_cap (errc p') = ch_cap (errc p)"
proof (cases rule: cmdWait_iter_cases[of p a n])
  case (blocked pevs p1)
  from publish_frame[OF blocked(1)] assms[unfolded blocked(2)] show ?thesis by auto
next
  case (panicked pevs p1)
  from publish_frame[OF panicked(1)] assms[unfolded panicked(2)] show ?thesis by auto
next
  case (stopped c pevs p1 p1')
  from publish_frame[OF stopped(1)] stopped(3) assms[unfolded stopped(4)] show ?thesis by auto
next
  case (respawn_failed c pevs p1 e sevs p2)
  from publish_frame[OF respawn_failed(1)] startCommand_frame[OF respawn_failed(5)]
    assms[unfolded respawn_failed(6)] show ?thesis by auto
next
  case (respawned c pevs p1 sevs p2)
  from publish_frame[OF respawned(1)] startCommand_frame[OF respawned(5)]
    assms[unfolded respawned(6)] show ?thesis by auto
qed

lemma cmdWait_iter_events:
  assumes "cmdWait_iter p n a = (fl, evs, p', n')"
  shows "exits evs = [exit_err a] \<and>
         published evs =
           (if fl = Stops BlockedOnSend \<or> fl = Stops Panicked then [] else [exit_err a]) \<and>
         (fl = Continue \<longleftrightarrow> spawned evs \<noteq> []) \<and>
         length (spawned evs) \<le> 1 \<and> n' = n + length (spawned evs) \<and> fl \<noteq> Stops AwaitingExit"
proof (cases rule: cmdWait_iter_cases[of p a n])
  case (blocked pevs p1)
  from publish_events[OF blocked(1)] assms[unfolded blocked(2)] show ?thesis by auto
next
  case (panicked pevs p1)
  from publish_events[OF panicked(1)] assms[unfolded panicked(2)] show ?thesis by auto
next
  case (stopped c pevs p1 p1')
  from publish_events[OF stopped(1)] assms[unfolded stopped(4)] show ?thesis by auto
next
  case (respawn_failed c pevs p1 e sevs p2)
  from publish_events[OF respawn_failed(1)] startCommand_events[OF respawn_failed(5)]
    assms[unfolded respawn_failed(6)] show ?thesis by auto
next
  case (respawned c pevs p1 sevs p2)
  from publish_events[OF respawned(1)] startCommand_events[OF respawned(5)]
    assms[unfolded respawned(6)] show ?thesis by auto
qed

lemma cmdWait_iter_order:
  assumes "cmdWait_iter p n a = (fl, evs, p', n')"
  shows "(fl = Continue \<longrightarrow> report_order None (evs @ rest) = report_order None rest) \<and>
         (fl \<noteq> Continue \<longrightarrow> report_order None evs)"
proof (cases rule: cmdWait_iter_cases[of p a n])
  case (blocked pevs p1)
  from publish_order[OF blocked(1), of "Some (exit_err a)" "[]"] assms[unfolded blocked(2)]
  show ?thesis by auto
next
  case (panicked pevs p1)
  from publish_order[OF panicked(1), of "Some (exit_err a)" "[]"] assms[unfolded panicked(2)]
  show ?thesis by auto
next
  case (stopped c pevs p1 p1')
  from publish_order[OF stopped(1), of "Some (exit_err a)" "[]"] assms[unfolded stopped(4)]
  show ?thesis by auto
next
  case (respawn_failed c pevs p1 e sevs p2)
  from publish_order[OF respawn_failed(1), of "Some (exit_err a)" sevs]
    startCommand_events[OF respawn_failed(5)] assms[unfolded respawn_failed(6)]
  show ?thesis by auto
next
  case (respawned c pevs p1 sevs p2)
  from publish_order[OF respawned(1), of "Some (exit_err a)" "sevs @ rest"]
    startCommand_events[OF respawned(5)] assms[unfolded respawned(6)]
  show ?thesis by auto
qed

subsection \<open>The loop\<close>

lemma cmdWait_loop_Cons_Continue:
  "cmdWait_iter p n a = (Continue, evs, p', n') \<Longrightarrow>
   cmdWait_loop p n (a # rest) =
     (fst (cmdWait_loop p' n' rest), evs @ fst (snd (cmdWait_loop p' n' rest)),
      snd (snd (cmdWait_loop p' n' rest)))"
  by (simp split: prod.splits)

lemma cmdWait_loop_Cons_Stops:
  "cmdWait_iter p n a = (Stops st, evs, p', n') \<Longrightarrow> cmdWait_loop p n (a # rest) = (st, evs, p')"
  by simp

lemma cmdWait_loop_extend:
  "cmdWait_loop p n script = (st, evs, p') \<Longrightarrow> st \<noteq> AwaitingExit \<Longrightarrow>
     cmdWait_loop p n (script @ later) = (st, evs, p')"
proof (induction script arbitrary: p n st evs p')
  case Nil
  then show ?case by simp
next
  case (Cons a script)
  obtain fl ievs p1 n1 where it: "cmdWait_iter p n a = (fl, ievs, p1, n1)"
    by (cases "cmdWait_iter p n a")
  show ?case
  proof (cases fl)
    case Continue
    obtain st2 evs2 p2 where rest: "cmdWait_loop p1 n1 script = (st2, evs2, p2)"
      by (cases "cmdWait_loop p1 n1 script")
    from Cons.prems it Continue rest have "st2 = st" "evs = ievs @ evs2" "p' = p2" by auto
    with Cons.IH[OF rest] Cons.prems(2) have "cmdWait_loop p1 n1 (script @ later) = (st, evs2, p2)"
      by simp
    with it Continue \<open>evs = ievs @ evs2\<close> \<open>p' = p2\<close> show ?thesis by simp
  next
    case (Stops x)
    with Cons.prems it show ?thesis by simp
  qed
qed

lemma cmdWait_loop_reports:
  "cmdWait_loop p n script = (st, evs, p') \<Longrightarrow>
     exits evs = map exit_err (take (length (exits evs)) script) \<and>
     published evs =
       (if st = BlockedOnSend \<or> st = Panicked then butlast (exits evs) else exits evs) \<and>
     (st = BlockedOnSend \<or> st = Panicked \<longrightarrow> exits evs \<noteq> []) \<and>
     report_order None evs"
proof (induction script arbitrary: p n st evs p')
  case Nil
  then show ?case by auto
next
  case (Cons a script)
  obtain fl ievs p1 n1 where it: "cmdWait_iter p n a = (fl, ievs, p1, n1)"
    by (cases "cmdWait_iter p n a")
  note ev = cmdWait_iter_events[OF it]
  show ?case
  proof (cases fl)
    case Continue
    obtain st2 evs2 p2 where rest: "cmdWait_loop p1 n1 script = (st2, evs2, p2)"
      by (cases "cmdWait_loop p1 n1 script")
    from Cons.prems it Continue rest have eq: "st2 = st" "evs = ievs @ evs2" "p' = p2" by auto
    note ih = Cons.IH[OF rest]
    from cmdWait_iter_order[OF it, of evs2] Continue ih
    have ord: "report_order None (ievs @ evs2)" by simp
    from ev Continue have e1: "exits ievs = [exit_err a]" "published ievs = [exit_err a]"
      by auto
    from ih e1 eq ord show ?thesis by (auto simp: butlast_append)
  next
    case (Stops x)
    with Cons.prems it have eq: "st = x" "evs = ievs" by auto
    from cmdWait_iter_order[OF it, of "[]"] Stops have "report_order None ievs" by simp
    with ev Stops eq show ?thesis by auto
  qed
qed

subsection \<open>A command that keeps failing\<close>

lemma startCommand_no_panic:
  "commandArgs p \<noteq> [] \<Longrightarrow> ctx p \<noteq> None \<Longrightarrow> fst (startCommand p ob) \<noteq> Some Panic"
  by (auto simp: startCommand_def cmd_Start_def Let_def split: list.splits option.splits)

lemma startCommand_respawns:
  assumes "startCommand p ob = (r, evs, p')" "commandArgs p \<noteq> []" "ctx p \<noteq> None"
  shows "respawns evs \<noteq> []"
  using startCommand_events[OF assms(1)] startCommand_no_panic[OF assms(2,3), of ob] assms(1)
  by auto

lemma shouldRestart_policy:
  "OnError rc \<Longrightarrow> 0 < Limit rc \<Longrightarrow> err \<noteq> None \<Longrightarrow>
     shouldRestart (Some rc) err n \<longleftrightarrow> int n < Limit rc"
  by (auto simp: shouldRestart_def)

lemma cmdWait_loop_failing:
  assumes "restartConfig p = Some rc" "OnError rc" "0 < Limit rc"
    and "commandArgs p \<noteq> []" "ctx p \<noteq> None" "\<not> ch_closed (errc p)"
    and "\<forall>a\<in>set script. keeps_failing a"
    and "int n \<le> Limit rc" "nat (Limit rc) - n < length script"
    and "cmdWait_loop p n script = (st, evs, p')" "st \<noteq> BlockedOnSend"
  shows "st = Returned \<and> length (published evs) = nat (Limit rc) - n + 1 \<and>
         None \<notin> set (published evs) \<and> length (spawned evs) = nat (Limit rc) - n"
  using assms
proof (induction script arbitrary: p n st evs p')
  case Nil
  then show ?case by simp
next
  case (Cons a script)
  from Cons.prems(7) have kf: "exit_err a \<noteq> None" "wait_case a = ExitFirst"
    "sleep_case a = IntervalElapsed" "spawn_ok (respawn a)"
    by (simp_all add: keeps_failing_def)
  have sr: "shouldRestart (restartConfig p) (exit_err a) n \<longleftrightarrow> int n < Limit rc"
    using shouldRestart_policy[OF Cons.prems(2,3) kf(1)] Cons.prems(1) by simp
  show ?case
  proof (cases rule: cmdWait_iter_cases[of p a n])
    case (blocked pevs p1)
    with Cons.prems(10,11) show ?thesis by simp
  next
    case (panicked pevs p1)
    with publish_not_closed[OF Cons.prems(6), of "recvs a" "exit_err a"] show ?thesis by simp
  next
    case (stopped c pevs p1 p1')
    from stopped(2) kf sr have "\<not> int n < Limit rc" by simp
    with Cons.prems(8) have n: "nat (Limit rc) - n = 0" by simp
    from Cons.prems(10) stopped(4) have "st = Returned" "evs = EvExit (exit_err a) # pevs"
      by simp_all
    with publish_events[OF stopped(1)] kf(1) n show ?thesis by auto
  next
    case (respawn_failed c pevs p1 e sevs p2)
    from publish_frame[OF respawn_failed(1)] Cons.prems(4,5)
    have "commandArgs p1 \<noteq> []" "ctx p1 \<noteq> None" by auto
    from startCommand_ok[OF this kf(4)] respawn_failed(5) show ?thesis by simp
  next
    case (respawned c pevs p1 sevs p2)
    from respawned(3) sr have lt: "int n < Limit rc" by simp
    note fr = cmdWait_iter_frame[OF respawned(6)]
    obtain st2 evs2 p3 where rest: "cmdWait_loop p2 (n + 1) script = (st2, evs2, p3)"
      by (cases "cmdWait_loop p2 (n + 1) script")
    define iev where "iev = EvExit (exit_err a) # pevs @ sevs"
    from Cons.prems(10) respawned(6) rest
    have eq: "st = st2" "evs = iev @ evs2" by (simp_all add: iev_def)
    have ih: "st2 = Returned \<and> length (published evs2) = nat (Limit rc) - (n + 1) + 1 \<and>
         None \<notin> set (published evs2) \<and> length (spawned evs2) = nat (Limit rc) - (n + 1)"
    proof (rule Cons.IH[OF _ Cons.prems(2,3) _ _ _ _ _ _ rest])
      show "restartConfig p2 = Some rc" using fr Cons.prems(1) by simp
      show "commandArgs p2 \<noteq> []" using fr Cons.prems(4) by simp
      show "ctx p2 \<noteq> None" using fr Cons.prems(5) by simp
      show "\<not> ch_closed (errc p2)" using fr Cons.prems(6) by simp
      show "\<forall>a\<in>set script. keeps_failing a" using Cons.prems(7) by simp
      show "int (n + 1) \<le> Limit rc" using lt by simp
      show "nat (Limit rc) - (n + 1) < length script" using Cons.prems(9) lt by simp
      show "st2 \<noteq> BlockedOnSend" using Cons.prems(11) eq by simp
    qed
    from cmdWait_iter_events[OF respawned(6)[folded iev_def]]
    have ie: "published iev = [exit_err a]" "length (spawned iev) = 1" by auto
    from lt have su: "nat (Limit rc) - n = Suc (nat (Limit rc) - (n + 1))" by simp
    have 1: "length (published evs) = nat (Limit rc) - n + 1"
      unfolding eq(2) published_append su using ih ie by simp
    have 2: "length (spawned evs) = nat (Limit rc) - n"
      unfolding eq(2) spawned_append su using ih ie by simp
    have 3: "None \<notin> set (published evs)"
      unfolding eq(2) published_append using ih ie kf(1) by auto
    from 1 2 3 ih eq(1) show ?thesis by simp
  qed
qed

text \<open>With a caller that never reads, the queue of a fresh handle fills up.\<close>

lemma publish_unread:
  "\<not> ch_closed (errc p) \<Longrightarrow>
   publish p 0 err =
     (if int (length (ch_buf (errc p))) < ch_cap (errc p)
      then (Sent ((errc p)\<lparr>ch_buf := ch_buf (errc p) @ [err]\<rparr>), [EvPublish err],
            p\<lparr>errc := (errc p)\<lparr>ch_buf := ch_buf (errc p) @ [err]\<rparr>\<rparr>)
      else (SendBlocks, [], p\<lparr>errc := errc p\<rparr>))"
  by (simp add: publish_def chan_send_def)

lemma cmdWait_loop_unread:
  assumes "restartConfig p = Some rc" "OnError rc" "0 < Limit rc"
    and "commandArgs p \<noteq> []" "ctx p \<noteq> None" "\<not> ch_closed (errc p)"
    and "ch_cap (errc p) = Limit rc" "length (ch_buf (errc p)) = n"
    and "\<forall>a\<in>set script. keeps_failing a \<and> recvs a = 0"
    and "int n \<le> Limit rc" "nat (Limit rc) - n < length script"
    and "cmdWait_loop p n script = (st, evs, p')"
  shows "st = BlockedOnSend \<and> length (published evs) = nat (Limit rc) - n \<and>
         length (exits evs) = nat (Limit rc) - n + 1"
  using assms
proof (induction script arbitrary: p n st evs p')
  case Nil
  then show ?case by simp
next
  case (Cons a script)
  from Cons.prems(9) have kf: "exit_err a \<noteq> None" "wait_case a = ExitFirst"
    "sleep_case a = IntervalElapsed" "spawn_ok (respawn a)" "recvs a = 0"
    by (simp_all add: keeps_failing_def)
  have sr: "shouldRestart (restartConfig p) (exit_err a) n \<longleftrightarrow> int n < Limit rc"
    using shouldRestart_policy[OF Cons.prems(2,3) kf(1)] Cons.prems(1) by simp
  note pu = publish_unread[OF Cons.prems(6), of "exit_err a", folded kf(5)]
  show ?case
  proof (cases rule: cmdWait_iter_cases[of p a n])
    case (blocked pevs p1)
    from blocked(1) pu Cons.prems(7,8) have "\<not> int n < Limit rc" "pevs = []"
      by (auto split: if_splits)
    with Cons.prems(10) have n: "nat (Limit rc) - n = 0" by simp
    from Cons.prems(12) blocked(2) \<open>pevs = []\<close>
    have "st = BlockedOnSend" "evs = [EvExit (exit_err a)]" by simp_all
    with n show ?thesis by simp
  next
    case (panicked pevs p1)
    with publish_not_closed[OF Cons.prems(6), of "recvs a" "exit_err a"] show ?thesis by simp
  next
    case (stopped c pevs p1 p1')
    from stopped(2) kf sr have "\<not> int n < Limit rc" by simp
    with stopped(1) pu Cons.prems(7,8) show ?thesis by (auto split: if_splits)
  next
    case (respawn_failed c pevs p1 e sevs p2)
    from publish_frame[OF respawn_failed(1)] Cons.prems(4,5)
    have "commandArgs p1 \<noteq> []" "ctx p1 \<noteq> None" by auto
    from startCommand_ok[OF this kf(4)] respawn_failed(5) show ?thesis by simp
  next
    case (respawned c pevs p1 sevs p2)
    from respawned(3) sr have lt: "int n < Limit rc" by simp
    note fr = cmdWait_iter_frame[OF respawned(6)]
    from respawned(1) pu Cons.prems(7,8) lt
    have p1: "p1 = p\<lparr>errc := (errc p)\<lparr>ch_buf := ch_buf (errc p) @ [exit_err a]\<rparr>\<rparr>"
      by (auto split: if_splits)
    from startCommand_frame[OF respawned(5)] p1 Cons.prems(8)
    have buf: "length (ch_buf (errc p2)) = n + 1" by simp
    obtain st2 evs2 p3 where rest: "cmdWait_loop p2 (n + 1) script = (st2, evs2, p3)"
      by (cases "cmdWait_loop p2 (n + 1) script")
    define iev where "iev = EvExit (exit_err a) # pevs @ sevs"
    from Cons.prems(12) respawned(6) rest
    have eq: "st = st2" "evs = iev @ evs2" by (simp_all add: iev_def)
    have ih: "st2 = BlockedOnSend \<and> length (published evs2) = nat (Limit rc) - (n + 1) \<and>
         length (exits evs2) = nat (Limit rc) - (n + 1) + 1"
    proof (rule Cons.IH[OF _ Cons.prems(2,3) _ _ _ _ buf _ _ _ rest])
      show "restartConfig p2 = Some rc" using fr Cons.prems(1) by simp
      show "commandArgs p2 \<noteq> []" using fr Cons.prems(4) by simp
      show "ctx p2 \<noteq> None" using fr Cons.prems(5) by simp
      show "\<not> ch_closed (errc p2)" using fr Cons.prems(6) by simp
      show "ch_cap (errc p2) = Limit rc" using fr Cons.prems(7) by simp
      show "\<forall>a\<in>set script. keeps_failing a \<and> recvs a = 0" using Cons.prems(9) by simp
      show "int (n + 1) \<le> Limit rc" using lt by simp
      show "nat (Limit rc) - (n + 1) < length script" using Cons.prems(11) lt by simp
    qed
    from cmdWait_iter_events[OF respawned(6)[folded iev_def]]
    have ie: "published iev = [exit_err a]" "exits iev = [exit_err a]" by auto
    from lt have su: "nat (Limit rc) - n = Suc (nat (Limit rc) - (n + 1))" by simp
    have 1: "length (published evs) = nat (Limit rc) - n"
      unfolding eq(2) published_append su using ih ie by simp
    have 2: "length (exits evs) = nat (Limit rc) - n + 1"
      unfolding eq(2) exits_append su using ih ie by simp
    from 1 2 ih eq(1) show ?thesis by simp
  qed
qed

subsection \<open>Counting exits, reports and restarts\<close>

text \<open>An iteration after which the loop goes on: the decision function held, and there was
  one exit, one report and one accepted spawn.\<close>

lemma cmdWait_iter_Continue:
  assumes "cmdWait_iter p n a = (Continue, evs, p', n')"
  shows "shouldRestart (restartConfig p) (exit_err a) n \<and> n' = n + 1 \<and>
         length (spawned evs) = 1 \<and> length (published evs) = 1 \<and> length (exits evs) = 1"
proof (cases rule: cmdWait_iter_cases[of p a n])
  case (respawned c pevs p1 sevs p2)
  from cmdWait_iter_events[OF assms] respawned(3) show ?thesis
    by (cases "spawned evs") auto
qed (use assms in simp_all)

lemma cmdWait_iter_Stops:
  assumes "cmdWait_iter p n a = (Stops x, evs, p', n')"
  shows "spawned evs = [] \<and> length (published evs) \<le> 1 \<and> length (exits evs) = 1"
  using cmdWait_iter_events[OF assms] by (auto split: if_splits)

lemma cmdWait_loop_counts:
  "cmdWait_loop p n script = (st, evs, p') \<Longrightarrow>
     length (published evs) \<le> length (exits evs) \<and>
     length (exits evs) \<le> length (spawned evs) + 1"
proof (induction script arbitrary: p n st evs p')
  case Nil
  then show ?case by simp
next
  case (Cons a script)
  obtain fl ievs p1 n1 where it: "cmdWait_iter p n a = (fl, ievs, p1, n1)"
    by (cases "cmdWait_iter p n a")
  show ?case
  proof (cases fl)
    case Continue
    obtain st2 evs2 p2 where rest: "cmdWait_loop p1 n1 script = (st2, evs2, p2)"
      by (cases "cmdWait_loop p1 n1 script")
    from Cons.prems it Continue rest have eq: "evs = ievs @ evs2" by auto
    from cmdWait_iter_Continue[OF it[unfolded Continue]] Cons.IH[OF rest]
    show ?thesis unfolding eq by simp
  next
    case (Stops x)
    with Cons.prems it have eq: "evs = ievs" by auto
    from cmdWait_iter_Stops[OF it[unfolded Stops]] show ?thesis unfolding eq by simp
  qed
qed

lemma cmdWait_loop_restarts_bound:
  assumes "restartConfig p = Some rc" "0 < Limit rc" "int n \<le> Limit rc"
    and "cmdWait_loop p n script = (st, evs, p')"
  shows "length (spawned evs) \<le> nat (Limit rc) - n"
  using assms
proof (induction script arbitrary: p n st evs p')
  case Nil
  then show ?case by simp
next
  case (Cons a script)
  obtain fl ievs p1 n1 where it: "cmdWait_iter p n a = (fl, ievs, p1, n1)"
    by (cases "cmdWait_iter p n a")
  show ?case
  proof (cases fl)
    case Continue
    obtain st2 evs2 p2 where rest: "cmdWait_loop p1 n1 script = (st2, evs2, p2)"
      by (cases "cmdWait_loop p1 n1 script")
    from Cons.prems(4) it Continue rest have eq: "evs = ievs @ evs2" by auto
    note c = cmdWait_iter_Continue[OF it[unfolded Continue]]
    from c Cons.prems(1,2) have lt: "int n < Limit rc" by (simp add: shouldRestart_def)
    from c have n1: "n1 = n + 1" by simp
    from cmdWait_iter_frame[OF it] Cons.prems(1) have rc: "restartConfig p1 = Some rc" by simp
    from lt have le: "int (n + 1) \<le> Limit rc" by simp
    from Cons.IH[OF rc Cons.prems(2) le rest[unfolded n1]] c lt
    show ?thesis unfolding eq spawned_append by simp
  next
    case (Stops x)
    with Cons.prems(4) it have eq: "evs = ievs" by auto
    from cmdWait_iter_Stops[OF it[unfolded Stops]] show ?thesis unfolding eq by simp
  qed
qed

lemma cmdWait_loop_nonnil:
  assumes "\<forall>a\<in>set script. exit_err a \<noteq> None" and "cmdWait_loop p n script = (st, evs, p')"
  shows "None \<notin> set (published evs)"
proof -
  note rep = cmdWait_loop_reports[OF assms(2)]
  from rep have ex: "exits evs = map exit_err (take (length (exits evs)) script)" by simp
  from assms(1) have "\<forall>a\<in>set (take (length (exits evs)) script). exit_err a \<noteq> None"
    by (meson in_set_takeD)
  then have "None \<notin> set (map exit_err (take (length (exits evs)) script))" by force
  with ex have ne: "None \<notin> set (exits evs)" by simp
  from rep have "published evs = exits evs \<or> published evs = butlast (exits evs)"
    by (simp split: if_splits)
  with ne show ?thesis by (auto dest: in_set_butlastD)
qed

text \<open>
  Claim C1, as the code has it. The limit bounds the restarts, not the attempts. Under a
  policy with \<open>OnError\<close> and a positive limit \<open>L\<close>, for a command that exits with an error
  on every attempt, the watcher makes at most \<open>L\<close> restarts and publishes at most \<open>L + 1\<close>
  reports, none of them nil, whatever else happens. It makes exactly \<open>L\<close> restarts and
  publishes exactly \<open>L + 1\<close> reports, and then returns, so that nothing more is published
  whatever is observed afterwards, when the handle was started and its queue is open, the
  lifecycle is not cancelled before the watcher returns (every exit is observed before any
  cancellation and every restart interval elapses), every re-spawn is accepted, the command
  exits at least \<open>L + 1\<close> times, and the watcher is not left blocked on a full queue. Under
  the same conditions, when the caller never reads and the queue is the fresh one of
  capacity \<open>L\<close>, the first \<open>L\<close> reports are published and the watcher blocks in the send of
  the last one.
\<close>

theorem cmdWait_restart_limit:
  assumes "restartConfig p = Some rc" "OnError rc" "0 < Limit rc"
    and "\<forall>a\<in>set script. exit_err a \<noteq> None"
    and "cmdWait p script = (st, evs, p')"
  shows "length (spawned evs) \<le> nat (Limit rc) \<and>
         length (published evs) \<le> nat (Limit rc) + 1 \<and>
         None \<notin> set (published evs) \<and>
         (commandArgs p \<noteq> [] \<and> ctx p \<noteq> None \<and> \<not> ch_closed (errc p) \<and>
          (\<forall>a\<in>set script. keeps_failing a) \<and> nat (Limit rc) < length script \<longrightarrow>
            (st \<noteq> BlockedOnSend \<longrightarrow>
               st = Returned \<and> length (published evs) = nat (Limit rc) + 1 \<and>
               length (spawned evs) = nat (Limit rc) \<and>
               cmdWait p (script @ later) = (st, evs, p')) \<and>
            (ch_cap (errc p) = Limit rc \<and> ch_buf (errc p) = [] \<and>
             (\<forall>a\<in>set script. recvs a = 0) \<longrightarrow>
               st = BlockedOnSend \<and> length (published evs) = nat (Limit rc) \<and>
               length (exits evs) = nat (Limit rc) + 1))"
proof -
  note run = assms(5)[unfolded cmdWait_def]
  from cmdWait_loop_restarts_bound[OF assms(1,3) _ run]
  have sp: "length (spawned evs) \<le> nat (Limit rc)" using assms(3) by simp
  from cmdWait_loop_counts[OF run] sp
  have pu: "length (published evs) \<le> nat (Limit rc) + 1" by simp
  note nn = cmdWait_loop_nonnil[OF assms(4) run]
  have full: "(st \<noteq> BlockedOnSend \<longrightarrow>
               st = Returned \<and> length (published evs) = nat (Limit rc) + 1 \<and>
               length (spawned evs) = nat (Limit rc) \<and>
               cmdWait p (script @ later) = (st, evs, p')) \<and>
            (ch_cap (errc p) = Limit rc \<and> ch_buf (errc p) = [] \<and>
             (\<forall>a\<in>set script. recvs a = 0) \<longrightarrow>
               st = BlockedOnSend \<and> length (published evs) = nat (Limit rc) \<and>
               length (exits evs) = nat (Limit rc) + 1)"
    if h: "commandArgs p \<noteq> [] \<and> ctx p \<noteq> None \<and> \<not> ch_closed (errc p) \<and>
          (\<forall>a\<in>set script. keeps_failing a) \<and> nat (Limit rc) < length script"
  proof (intro conjI impI)
    from h have h1: "commandArgs p \<noteq> []" and h2: "ctx p \<noteq> None" and h3: "\<not> ch_closed (errc p)"
      and h4: "\<forall>a\<in>set script. keeps_failing a" and h5: "nat (Limit rc) < length script"
      by simp_all
    {
      assume nb: "st \<noteq> BlockedOnSend"
      from cmdWait_loop_failing[OF assms(1-3) h1 h2 h3 h4 _ _ run nb] assms(3) h5
      have r: "st = Returned \<and> length (published evs) = nat (Limit rc) + 1 \<and>
           None \<notin> set (published evs) \<and> length (spawned evs) = nat (Limit rc)" by simp
      then show "st = Returned" "length (published evs) = nat (Limit rc) + 1"
        "length (spawned evs) = nat (Limit rc)" by simp_all
      from r cmdWait_loop_extend[OF run, of later]
      show "cmdWait p (script @ later) = (st, evs, p')" by (simp add: cmdWait_def)
    }
    {
      assume u: "ch_cap (errc p) = Limit rc \<and> ch_buf (errc p) = [] \<and>
         (\<forall>a\<in>set script. recvs a = 0)"
      with h4 have all: "\<forall>a\<in>set script. keeps_failing a \<and> recvs a = 0" by simp
      from u have "length (ch_buf (errc p)) = 0" by simp
      from cmdWait_loop_unread[OF assms(1-3) h1 h2 h3 _ this all _ _ run] u assms(3) h5
      have r: "st = BlockedOnSend \<and> length (published evs) = nat (Limit rc) \<and>
           length (exits evs) = nat (Limit rc) + 1" by simp
      then show "st = BlockedOnSend" "length (published evs) = nat (Limit rc)"
        "length (exits evs) = nat (Limit rc) + 1" by simp_all
    }
  qed
  from sp pu nn full show ?thesis by blast
qed

text \<open>Limit 3: four reports and three restarts for a caller that keeps reading; three
  reports and a blocked watcher when nothing is read; three reports and two restarts in
  \<open>TestProcessWithRestarts\<close>, where the lifecycle is cancelled during the third restart
  interval.\<close>

lemma restarts_started_facts:
  "restartConfig restarts_started = Some \<lparr>OnError = True, Limit = 3, Interval = 100000000\<rparr>"
  "commandArgs restarts_started \<noteq> []" "ctx restarts_started \<noteq> None"
  "\<not> ch_closed (errc restarts_started)"
  "ch_cap (errc restarts_started) = 3" "ch_buf (errc restarts_started) = []"
  by (simp_all add: restarts_started_def restarts_proc_def)

lemma failures_keep_failing:
  "keeps_failing fail_unread" "keeps_failing fail_drained" "recvs fail_unread = 0"
  by (simp_all add: keeps_failing_def fail_unread_def fail_drained_def spawn_ok_def spawn_4242_def)

lemma failures_exit_with_error:
  "exit_err fail_unread = Some (ExitError 1)" "exit_err fail_drained = Some (ExitError 1)"
  "exit_err fail_drained_cancelled = Some (ExitError 1)"
  by (simp_all add: fail_unread_def fail_drained_def fail_drained_cancelled_def)

theorem cmdWait_restart_limit_witness:
  "fst (cmdWait restarts_started four_failures) = Returned \<and>
   length (published (fst (snd (cmdWait restarts_started four_failures)))) = 4 \<and>
   None \<notin> set (published (fst (snd (cmdWait restarts_started four_failures)))) \<and>
   length (spawned (fst (snd (cmdWait restarts_started four_failures)))) = 3 \<and>
   fst (cmdWait restarts_started (replicate 4 fail_unread)) = BlockedOnSend \<and>
   length (published (fst (snd (cmdWait restarts_started (replicate 4 fail_unread))))) = 3 \<and>
   fst (cmdWait restarts_started stopped_after_three) = Returned \<and>
   length (published (fst (snd (cmdWait restarts_started stopped_after_three)))) = 3 \<and>
   length (spawned (fst (snd (cmdWait restarts_started stopped_after_three)))) = 2 \<and>
   None \<notin> set (published (fst (snd (cmdWait restarts_started stopped_after_three))))"
proof -
  let ?rc = "\<lparr>OnError = True, Limit = 3, Interval = 100000000\<rparr>"
  have pol: "OnError ?rc" "0 < Limit ?rc" by simp_all
  have a: "\<forall>a\<in>set four_failures. keeps_failing a" "nat (Limit ?rc) < length four_failures"
    "\<forall>a\<in>set four_failures. exit_err a \<noteq> None"
    by (simp_all add: four_failures_def failures_keep_failing failures_exit_with_error)
  have b: "\<forall>a\<in>set (replicate 4 fail_unread). keeps_failing a"
    "nat (Limit ?rc) < length (replicate 4 fail_unread)"
    "\<forall>a\<in>set (replicate 4 fail_unread). recvs a = 0"
    "\<forall>a\<in>set (replicate 4 fail_unread). exit_err a \<noteq> None"
    by (simp_all add: failures_keep_failing failures_exit_with_error)
  have s: "\<forall>a\<in>set stopped_after_three. exit_err a \<noteq> None"
    by (simp add: stopped_after_three_def failures_exit_with_error)
  have nb: "fst (cmdWait restarts_started four_failures) \<noteq> BlockedOnSend" by code_simp
  have c1: "cmdWait restarts_started four_failures =
      (fst (cmdWait restarts_started four_failures),
       fst (snd (cmdWait restarts_started four_failures)),
       snd (snd (cmdWait restarts_started four_failures)))" by simp
  have c2: "cmdWait restarts_started (replicate 4 fail_unread) =
      (fst (cmdWait restarts_started (replicate 4 fail_unread)),
       fst (snd (cmdWait restarts_started (replicate 4 fail_unread))),
       snd (snd (cmdWait restarts_started (replicate 4 fail_unread))))" by simp
  have c3: "cmdWait restarts_started stopped_after_three =
      (fst (cmdWait restarts_started stopped_after_three),
       fst (snd (cmdWait restarts_started stopped_after_three)),
       snd (snd (cmdWait restarts_started stopped_after_three)))" by simp
  from cmdWait_restart_limit[OF restarts_started_facts(1) pol a(3) c1, of "[]"]
    nb a(1,2) restarts_started_facts(2,3,4)
  have 1: "fst (cmdWait restarts_started four_failures) = Returned \<and>
   length (published (fst (snd (cmdWait restarts_started four_failures)))) = 4 \<and>
   None \<notin> set (published (fst (snd (cmdWait restarts_started four_failures)))) \<and>
   length (spawned (fst (snd (cmdWait restarts_started four_failures)))) = 3" by simp
  from cmdWait_restart_limit[OF restarts_started_facts(1) pol b(4) c2, of "[]"]
    b(1,2,3) restarts_started_facts(2,3,4,5,6)
  have 2: "fst (cmdWait restarts_started (replicate 4 fail_unread)) = BlockedOnSend \<and>
   length (published (fst (snd (cmdWait restarts_started (replicate 4 fail_unread))))) = 3"
    by simp
  have 3: "fst (cmdWait restarts_started stopped_after_three) = Returned"
    "length (published (fst (snd (cmdWait restarts_started stopped_after_three)))) = 3"
    "length (spawned (fst (snd (cmdWait restarts_started stopped_after_three)))) = 2"
    by code_simp+
  from cmdWait_restart_limit[OF restarts_started_facts(1) pol s c3, of "[]"]
  have 4: "None \<notin> set (published (fst (snd (cmdWait restarts_started stopped_after_three))))"
    by simp
  from 1 2 3 4 show ?thesis by simp
qed

text \<open>
  With limit 3 the watcher does not stop at three reports: for a caller that keeps reading
  and does not stop the handle, a fourth is published.
\<close>

theorem cmdWait_restart_limit_counterexample:
  "restartConfig restarts_started = Some \<lparr>OnError = True, Limit = 3, Interval = 100000000\<rparr> \<and>
   fst (cmdWait restarts_started four_failures) = Returned \<and>
   published (fst (snd (cmdWait restarts_started four_failures)))
     = [Some (ExitError 1), Some (ExitError 1), Some (ExitError 1), Some (ExitError 1)]"
proof (intro conjI)
  show "restartConfig restarts_started = Some \<lparr>OnError = True, Limit = 3, Interval = 100000000\<rparr>"
    by (rule restarts_started_facts(1))
  show "fst (cmdWait restarts_started four_failures) = Returned" by code_simp
  show "published (fst (snd (cmdWait restarts_started four_failures)))
     = [Some (ExitError 1), Some (ExitError 1), Some (ExitError 1), Some (ExitError 1)]"
    by code_simp
qed

subsection \<open>The restart decision\<close>

lemma spawned_respawns: "spawned evs \<noteq> [] \<Longrightarrow> respawns evs \<noteq> []"
  by (induction evs rule: respawns.induct) simp_all

text \<open>
  Claim C2, as the code has it. On a started handle, an iteration of the watcher runs the
  spawn step again if and only if the report was sent, the exit was observed before any
  cancellation of the lifecycle, the decision function holds for the termination error and
  the restart counter, and the restart interval elapsed before the lifecycle was
  cancelled. The decision function holds iff a policy is configured with \<open>OnError\<close>, the
  error is not nil, and the limit is not positive or the counter is below it. The loop
  goes on exactly when the spawn was accepted. In particular a nil error and the absence
  of a policy end the loop without a spawn.
\<close>

theorem cmdWait_respawn_iff:
  assumes "cmdWait_iter p n a = (fl, evs, p', n')" and "commandArgs p \<noteq> []" and "ctx p \<noteq> None"
  shows "(respawns evs \<noteq> [] \<longleftrightarrow>
            published evs = [exit_err a] \<and> wait_case a = ExitFirst \<and>
            sleep_case a = IntervalElapsed \<and> shouldRestart (restartConfig p) (exit_err a) n) \<and>
         (shouldRestart (restartConfig p) (exit_err a) n \<longleftrightarrow>
            (\<exists>rc. restartConfig p = Some rc \<and> OnError rc \<and> exit_err a \<noteq> None \<and>
                  (Limit rc \<le> 0 \<or> int n < Limit rc))) \<and>
         (fl = Continue \<longleftrightarrow> spawned evs \<noteq> []) \<and>
         (exit_err a = None \<longrightarrow> respawns evs = [] \<and> fl \<noteq> Continue) \<and>
         (restartConfig p = None \<longrightarrow> respawns evs = [] \<and> fl \<noteq> Continue)"
proof -
  have sr: "shouldRestart (restartConfig p) (exit_err a) n \<longleftrightarrow>
            (\<exists>rc. restartConfig p = Some rc \<and> OnError rc \<and> exit_err a \<noteq> None \<and>
                  (Limit rc \<le> 0 \<or> int n < Limit rc))"
    by (auto simp: shouldRestart_def split: option.splits)
  from cmdWait_iter_events[OF assms(1)]
  have co: "fl = Continue \<longleftrightarrow> spawned evs \<noteq> []" by simp
  have main: "respawns evs \<noteq> [] \<longleftrightarrow>
            published evs = [exit_err a] \<and> wait_case a = ExitFirst \<and>
            sleep_case a = IntervalElapsed \<and> shouldRestart (restartConfig p) (exit_err a) n"
  proof (cases rule: cmdWait_iter_cases[of p a n])
    case (blocked pevs p1)
    from publish_events[OF blocked(1)] assms(1)[unfolded blocked(2)] show ?thesis by auto
  next
    case (panicked pevs p1)
    from publish_events[OF panicked(1)] assms(1)[unfolded panicked(2)] show ?thesis by auto
  next
    case (stopped c pevs p1 p1')
    from publish_events[OF stopped(1)] stopped(2) assms(1)[unfolded stopped(4)]
    show ?thesis by auto
  next
    case (respawn_failed c pevs p1 e sevs p2)
    from publish_frame[OF respawn_failed(1)] assms(2,3)
    have "commandArgs p1 \<noteq> []" "ctx p1 \<noteq> None" by auto
    from startCommand_respawns[OF respawn_failed(5) this] publish_events[OF respawn_failed(1)]
      startCommand_events[OF respawn_failed(5)]
      respawn_failed(2,3,4) assms(1)[unfolded respawn_failed(6)]
    show ?thesis by auto
  next
    case (respawned c pevs p1 sevs p2)
    from publish_frame[OF respawned(1)] assms(2,3)
    have "commandArgs p1 \<noteq> []" "ctx p1 \<noteq> None" by auto
    from startCommand_respawns[OF respawned(5) this] publish_events[OF respawned(1)]
      startCommand_events[OF respawned(5)]
      respawned(2,3,4) assms(1)[unfolded respawned(6)]
    show ?thesis by auto
  qed
  have no: "\<not> shouldRestart (restartConfig p) (exit_err a) n \<Longrightarrow>
      respawns evs = [] \<and> fl \<noteq> Continue"
    using main co spawned_respawns[of evs] by blast
  from sr have "exit_err a = None \<Longrightarrow> \<not> shouldRestart (restartConfig p) (exit_err a) n"
    and "restartConfig p = None \<Longrightarrow> \<not> shouldRestart (restartConfig p) (exit_err a) n"
    by simp_all
  with no main sr co show ?thesis by blast
qed

lemma fail_cancelled_iter:
  "cmdWait_iter restarts_started 0 fail_cancelled =
     (Stops Returned, [EvExit (Some (ExitError 1)), EvPublish (Some (ExitError 1))],
      restarts_started\<lparr>errc := \<lparr>ch_cap = 3, ch_buf = [Some (ExitError 1)], ch_closed = False\<rparr>,
        ctx := Some True\<rparr>, 0)"
  by (simp add: cmdWait_iter_def Let_def publish_def chan_send_def fail_cancelled_def
        restarts_started_def restarts_proc_def)

lemma fail_unread_iter:
  "cmdWait_iter restarts_started 0 fail_unread =
     (Continue,
      [EvExit (Some (ExitError 1)), EvPublish (Some (ExitError 1)), EvSpawn 4242],
      restarts_started\<lparr>errc := \<lparr>ch_cap = 3, ch_buf = [Some (ExitError 1)], ch_closed = False\<rparr>\<rparr>,
      1)"
  by (simp add: cmdWait_iter_def Let_def publish_def chan_send_def fail_unread_def
        restarts_started_def restarts_proc_def startCommand_def cmd_Start_def spawn_4242_def)

theorem cmdWait_respawn_iff_witness:
  "shouldRestart (restartConfig restarts_started) (exit_err fail_unread) 0 \<and>
   respawns [EvExit (Some (ExitError 1)), EvPublish (Some (ExitError 1)), EvSpawn 4242] \<noteq> [] \<and>
   cmdWait_iter restarts_started 0 fail_unread =
     (Continue,
      [EvExit (Some (ExitError 1)), EvPublish (Some (ExitError 1)), EvSpawn 4242],
      restarts_started\<lparr>errc := \<lparr>ch_cap = 3, ch_buf = [Some (ExitError 1)], ch_closed = False\<rparr>\<rparr>,
      1)"
  using cmdWait_respawn_iff[OF fail_unread_iter restarts_started_facts(2,3)] fail_unread_iter
  by (simp add: fail_unread_def)

text \<open>
  The decision function alone does not decide: when the lifecycle is cancelled during the
  restart interval the watcher returns without a spawn although the decision function
  holds.
\<close>

theorem cmdWait_respawn_cancelled_counterexample:
  "shouldRestart (restartConfig restarts_started) (exit_err fail_cancelled) 0 \<and>
   cmdWait_iter restarts_started 0 fail_cancelled =
     (Stops Returned, [EvExit (Some (ExitError 1)), EvPublish (Some (ExitError 1))],
      restarts_started\<lparr>errc := \<lparr>ch_cap = 3, ch_buf = [Some (ExitError 1)], ch_closed = False\<rparr>,
        ctx := Some True\<rparr>, 0) \<and>
   respawns [EvExit (Some (ExitError 1)), EvPublish (Some (ExitError 1))] = []"
  using fail_cancelled_iter
  by (simp add: shouldRestart_def restarts_started_facts fail_cancelled_def)

subsection \<open>One report per attempt\<close>


lemma unlimited_started_facts:
  "restartConfig unlimited_started = Some \<lparr>OnError = True, Limit = 0, Interval = 100000000\<rparr>"
  "ch_cap (errc unlimited_started) = 1" "ch_buf (errc unlimited_started) = []"
  by (simp_all add: unlimited_started_def sleep_started_def)


section \<open>Properties of a handle in use\<close>

subsection \<open>The process id slot\<close>

lemma int32_of_pid: "0 < q \<Longrightarrow> q < 2 ^ 31 \<Longrightarrow> sint (word_of_int q :: 32 word) = q"
  by (simp add: sint_sbintrunc' signed_take_bit_int_eq_self)

lemma startCommand_pid:
  assumes "startCommand p ob = (r, evs, p')"
  shows "pid p' = (if spawned evs = [] then pid p else word_of_int (last (spawned evs)))"
  using startCommand_events[OF assms] by auto

lemma Start_pid:
  assumes "Start p parent_done ob = (r, evs, p')"
  shows "pid p' = (if spawned evs = [] then pid p else word_of_int (last (spawned evs)))"
proof (cases "cmd p")
  case None
  obtain r1 evs1 p1 where sc: "startCommand (p\<lparr>ctx := Some parent_done\<rparr>) ob = (r1, evs1, p1)"
    by (cases "startCommand (p\<lparr>ctx := Some parent_done\<rparr>) ob")
  from assms None sc have "evs = evs1" "pid p' = pid p1"
    by (auto simp: Start_def split: option.splits)
  with startCommand_pid[OF sc] show ?thesis by simp
next
  case (Some c)
  with assms show ?thesis by (simp add: Start_def)
qed

lemma Stop_frame:
  assumes "Stop p ob = (r, evs, p')"
  shows "pid p' = pid p \<and> errc p' = errc p \<and> spawned evs = [] \<and> exits evs = [] \<and>
         published evs = [] \<and> received evs = []"
  using assms by (auto simp: Stop_def split: option.splits if_splits)

lemma cmdWait_iter_pid:
  assumes "cmdWait_iter p n a = (fl, evs, p', n')"
  shows "pid p' = (if spawned evs = [] then pid p else word_of_int (last (spawned evs)))"
proof (cases rule: cmdWait_iter_cases[of p a n])
  case (blocked pevs p1)
  from publish_frame[OF blocked(1)] publish_events[OF blocked(1)] assms[unfolded blocked(2)]
  show ?thesis by auto
next
  case (panicked pevs p1)
  from publish_frame[OF panicked(1)] publish_events[OF panicked(1)] assms[unfolded panicked(2)]
  show ?thesis by auto
next
  case (stopped c pevs p1 p1')
  from publish_frame[OF stopped(1)] publish_events[OF stopped(1)] stopped(3)
    assms[unfolded stopped(4)]
  show ?thesis by auto
next
  case (respawn_failed c pevs p1 e sevs p2)
  from publish_frame[OF respawn_failed(1)] publish_events[OF respawn_failed(1)]
    startCommand_pid[OF respawn_failed(5)] assms[unfolded respawn_failed(6)]
  show ?thesis by auto
next
  case (respawned c pevs p1 sevs p2)
  from publish_frame[OF respawned(1)] publish_events[OF respawned(1)]
    startCommand_pid[OF respawned(5)] assms[unfolded respawned(6)]
  show ?thesis by auto
qed

lemma cmdWait_loop_pid:
  "cmdWait_loop p n script = (st, evs, p') \<Longrightarrow>
     pid p' = (if spawned evs = [] then pid p else word_of_int (last (spawned evs)))"
proof (induction script arbitrary: p n st evs p')
  case Nil
  then show ?case by simp
next
  case (Cons a script)
  obtain fl ievs p1 n1 where it: "cmdWait_iter p n a = (fl, ievs, p1, n1)"
    by (cases "cmdWait_iter p n a")
  note ip = cmdWait_iter_pid[OF it]
  show ?case
  proof (cases fl)
    case Continue
    obtain st2 evs2 p2 where rest: "cmdWait_loop p1 n1 script = (st2, evs2, p2)"
      by (cases "cmdWait_loop p1 n1 script")
    from Cons.prems it Continue rest have eq: "evs = ievs @ evs2" "p' = p2" by auto
    from Cons.IH[OF rest] ip show ?thesis unfolding eq spawned_append by simp
  next
    case (Stops x)
    with Cons.prems it ip show ?thesis by simp
  qed
qed

text \<open>Every call appends its events to the trace and writes the slot exactly when one of
  them is an accepted spawn.\<close>

lemma exec_call_pid:
  "\<exists>evs. trace (exec_call s c) = trace s @ evs \<and>
     pid (handle (exec_call s c)) =
       (if spawned evs = [] then pid (handle s) else word_of_int (last (spawned evs)))"
proof (cases c)
  case (CallStart parent_done ob)
  obtain r evs p' where st: "Start (handle s) parent_done ob = (r, evs, p')"
    by (cases "Start (handle s) parent_done ob")
  from Start_pid[OF st] st CallStart show ?thesis
    by (intro exI[of _ evs]) (cases r; simp)
next
  case (CallStop ob)
  obtain r evs p' where st: "Stop (handle s) ob = (r, evs, p')"
    by (cases "Stop (handle s) ob")
  from Stop_frame[OF st] st CallStop show ?thesis
    by (intro exI[of _ evs]) simp
next
  case CallRecv
  show ?thesis
  proof (cases "chan_recv (Wait (handle s))")
    case None
    with CallRecv show ?thesis by (intro exI[of _ "[]"]) simp
  next
    case (Some vc)
    with CallRecv show ?thesis by (intro exI[of _ "[EvRecv (fst vc)]"]) (simp split: prod.splits)
  qed
next
  case (RunWatcher script)
  show ?thesis
  proof (cases "launched s = 0")
    case True
    with RunWatcher show ?thesis by (intro exI[of _ "[]"]) simp
  next
    case False
    obtain st evs p' where w: "cmdWait (handle s) script = (st, evs, p')"
      by (cases "cmdWait (handle s) script")
    from cmdWait_loop_pid[OF w[unfolded cmdWait_def]] w False RunWatcher show ?thesis
      by (intro exI[of _ evs]) simp
  qed
qed

lemma exec_call_slot: "slot_follows_trace s \<Longrightarrow> slot_follows_trace (exec_call s c)"
proof -
  assume inv: "slot_follows_trace s"
  from exec_call_pid[of s c] obtain evs where e: "trace (exec_call s c) = trace s @ evs"
    "pid (handle (exec_call s c)) =
       (if spawned evs = [] then pid (handle s) else word_of_int (last (spawned evs)))"
    by blast
  from inv show ?thesis
    unfolding slot_follows_trace_def e spawned_append by simp
qed

lemma run_slot: "slot_follows_trace s \<Longrightarrow> slot_follows_trace (run calls s)"
  unfolding run_def by (induction calls arbitrary: s) (simp_all add: exec_call_slot)

lemma New_pid: "New commands applied env = Inr p \<Longrightarrow> pid p = 0"
  by (auto simp: New_def split: option.splits sum.splits prod.splits if_splits)

text \<open>
  Claim C7. \<open>PID()\<close> reads the slot and changes nothing. On a handle made by \<open>New\<close> it
  returns 0, and it still returns 0 after any calls in which the operating system accepted
  no spawn. As soon as a spawn has been accepted it returns the process id of the last
  accepted spawn, a positive number (process ids are positive and fit \<open>int32\<close>), whatever
  came after that spawn: exits, receives, \<open>Stop\<close>, failed spawns. Only a later accepted
  spawn overwrites it. That the read takes no lock is outside this model.
\<close>

theorem PID_last_spawn:
  assumes "New commands applied env = Inr p0"
    and "\<forall>q\<in>set (spawned (trace (run calls (init p0)))). 0 < q \<and> q < 2 ^ 31"
  shows "PID p0 = 0 \<and>
         (spawned (trace (run calls (init p0))) = [] \<longrightarrow>
            PID (handle (run calls (init p0))) = 0) \<and>
         (spawned (trace (run calls (init p0))) \<noteq> [] \<longrightarrow>
            sint (PID (handle (run calls (init p0)))) = last (spawned (trace (run calls (init p0)))) \<and>
            0 < sint (PID (handle (run calls (init p0)))))"
proof -
  from New_pid[OF assms(1)] have z: "pid p0 = 0" .
  then have "slot_follows_trace (init p0)" by (simp add: slot_follows_trace_def init_def)
  from run_slot[OF this, of calls]
  have inv: "pid (handle (run calls (init p0))) =
       (if spawned (trace (run calls (init p0))) = [] then 0
        else word_of_int (last (spawned (trace (run calls (init p0))))))"
    by (simp add: slot_follows_trace_def)
  have pos: "spawned (trace (run calls (init p0))) \<noteq> [] \<Longrightarrow>
      0 < last (spawned (trace (run calls (init p0)))) \<and>
      last (spawned (trace (run calls (init p0)))) < 2 ^ 31"
    using assms(2) last_in_set by blast
  from z inv pos show ?thesis
    by (auto simp: PID_def int32_of_pid)
qed

text \<open>The slot of \<open>TestProcessSleep\<close>'s handle: 0, then 4242 through exit and \<open>Stop\<close>, then
  the id of the second spawn.\<close>

lemma run_start_again_spawned:
  "spawned (trace (run start_again (init sleep_proc))) = [4242, 4243]"
  by code_simp

lemma run_start_wait_stop_spawned:
  "spawned (trace (run start_wait_stop (init sleep_proc))) = [4242]"
  by code_simp

theorem PID_last_spawn_witness:
  "New [[''sleep'', ''9999'']] (Inr plain_op) test_env = Inr sleep_proc \<and>
   PID sleep_proc = 0 \<and>
   spawned (trace (run start_wait_stop (init sleep_proc))) = [4242] \<and>
   sint (PID (handle (run start_wait_stop (init sleep_proc)))) = 4242 \<and>
   spawned (trace (run start_again (init sleep_proc))) = [4242, 4243] \<and>
   sint (PID (handle (run start_again (init sleep_proc)))) = 4243"
proof -
  have a: "\<forall>q\<in>set (spawned (trace (run start_wait_stop (init sleep_proc)))). 0 < q \<and> q < 2 ^ 31"
    unfolding run_start_wait_stop_spawned by simp
  have b: "\<forall>q\<in>set (spawned (trace (run start_again (init sleep_proc)))). 0 < q \<and> q < 2 ^ 31"
    unfolding run_start_again_spawned by simp
  from PID_last_spawn[OF New_sleep a] PID_last_spawn[OF New_sleep b]
  show ?thesis
    by (simp add: New_sleep run_start_wait_stop_spawned run_start_again_spawned)
qed

subsection \<open>The queue is first in, first out, and never closed\<close>












subsection \<open>Reports come from started watchers only\<close>













end
